theory Spec2Isabelle
  imports Complex_Main "HOL-Library.Word"
begin

section \<open>Floating-point values\<close>

text \<open>
  Go's \<open>float64\<close> and \<open>float32\<close> are IEEE 754 binary64 and binary32. A value is a
  rational (every finite binary float is one), an infinity or a NaN. The sign of a zero is
  not tracked: both zeros are \<open>Finite 0\<close>. Every arithmetic operation computes the exact
  rational result and rounds it to the nearest representable value, ties to even, each
  operation rounded on its own (no fused multiply-add).
\<close>

datatype fp = Finite rat | PInf | NInf | NaN

type_synonym float64 = fp
type_synonym float32 = fp

function bitlen :: "int \<Rightarrow> int" where
  "bitlen n = (if n \<le> 0 then 0 else 1 + bitlen (n div 2))"
  by pat_completeness auto
termination
  by (relation "measure nat") auto

declare bitlen.simps [simp del]

definition ilog2 :: "rat \<Rightarrow> int" where
  \<comment> \<open>the binary exponent of a non-zero rational: \<open>2 powi e \<le> \<bar>x\<bar> < 2 powi (e + 1)\<close>\<close>
  "ilog2 x = (let (a, b) = quotient_of \<bar>x\<bar>;
                  k = bitlen a - bitlen b
              in if 2 powi k \<le> \<bar>x\<bar> then k else k - 1)"

definition round_even :: "rat \<Rightarrow> int" where
  \<comment> \<open>the nearest integer, a tie going to the even one\<close>
  "round_even x = (let f = \<lfloor>x\<rfloor>; r = x - of_int f
                   in if r < 1 / 2 then f else if 1 / 2 < r then f + 1
                      else if even f then f else f + 1)"

definition fround :: "nat \<Rightarrow> int \<Rightarrow> int \<Rightarrow> rat \<Rightarrow> fp" where
  \<comment> \<open>rounding to precision \<open>p\<close> with exponents from \<open>emin\<close> to \<open>emax\<close>; below
      \<open>2 powi emin\<close> the spacing stays that of the subnormal numbers\<close>
  "fround p emin emax x =
     (if x = 0 then Finite 0
      else let e = max (ilog2 x) emin;
               q = 2 powi (e - int p + 1);
               y = of_int (round_even (x / q)) * q
           in if emax < ilog2 y then (if 0 < x then PInf else NInf)
              else Finite y)"

definition round64 :: "rat \<Rightarrow> float64" where
  "round64 = fround 53 (- 1022) 1023"

definition round32 :: "rat \<Rightarrow> float32" where
  "round32 = fround 24 (- 126) 127"

fun fp_sgn :: "fp \<Rightarrow> int" where
  "fp_sgn (Finite x) = (if 0 < x then 1 else if x < 0 then - 1 else 0)"
| "fp_sgn PInf = 1"
| "fp_sgn NInf = - 1"
| "fp_sgn NaN = 0"

definition inf_of :: "int \<Rightarrow> fp" where
  "inf_of s = (if 0 < s then PInf else if s < 0 then NInf else NaN)"

fun fmul :: "float64 \<Rightarrow> float64 \<Rightarrow> float64" where
  "fmul (Finite x) (Finite y) = round64 (x * y)"
| "fmul NaN b = NaN"
| "fmul a NaN = NaN"
| "fmul a b = inf_of (fp_sgn a * fp_sgn b)"

fun fdiv :: "float64 \<Rightarrow> float64 \<Rightarrow> float64" where
  "fdiv (Finite x) (Finite y) =
     (if y = 0 then inf_of (fp_sgn (Finite x)) else round64 (x / y))"
| "fdiv NaN b = NaN"
| "fdiv a NaN = NaN"
| "fdiv (Finite x) b = Finite 0"
| "fdiv a (Finite y) = inf_of (fp_sgn a * (if y < 0 then - 1 else 1))"
| "fdiv a b = NaN"

fun fsub :: "float64 \<Rightarrow> float64 \<Rightarrow> float64" where
  "fsub (Finite x) (Finite y) = round64 (x - y)"
| "fsub NaN b = NaN"
| "fsub a NaN = NaN"
| "fsub PInf PInf = NaN"
| "fsub NInf NInf = NaN"
| "fsub PInf b = PInf"
| "fsub NInf b = NInf"
| "fsub a PInf = NInf"
| "fsub a NInf = PInf"

fun to_float32 :: "float64 \<Rightarrow> float32" where
  "to_float32 (Finite x) = round32 x"
| "to_float32 a = a"

definition float64_of_int :: "int \<Rightarrow> float64" where
  "float64_of_int k = round64 (of_int k)"

definition const64 :: "rat \<Rightarrow> float64" where
  \<comment> \<open>an untyped constant of the source (\<open>10.7\<close>, \<open>256\<close>, \<open>1000\<close>) converted to \<open>float64\<close>\<close>
  "const64 c = round64 c"

fun fp_positive :: "float64 \<Rightarrow> bool" where
  "fp_positive (Finite x) = (0 < x)"
| "fp_positive PInf = True"
| "fp_positive a = False"

definition uint_of_float64 :: "(float64 \<Rightarrow> nat) \<Rightarrow> float64 \<Rightarrow> nat" where
  \<comment> \<open>the conversion \<open>uint(f)\<close>: the fraction is discarded; where the value does not fit
      64 bits Go leaves the result to the implementation, here the parameter \<open>impl\<close>\<close>
  "uint_of_float64 impl f =
     (case f of
        Finite x \<Rightarrow> if - 1 < x \<and> x < 2 ^ 64 then nat \<lfloor>x\<rfloor> else impl f mod 2 ^ 64
      | _ \<Rightarrow> impl f mod 2 ^ 64)"

definition int_of_uint :: "nat \<Rightarrow> int" where
  \<comment> \<open>the conversion \<open>int(u)\<close> of a 64-bit unsigned value: two's complement\<close>
  "int_of_uint u = (if u < 2 ^ 63 then int u else int u - 2 ^ 64)"

section \<open>The archive writer (sr\_writer.go)\<close>

datatype fault = Err string | NilDeref

text \<open>
  What is written to an archive entry is kept as the sequence of the writes: a text, or
  one sample standing for its four little-endian bytes.
\<close>

datatype chunk = Txt string | F32 float32

text \<open>
  The \<open>zip.Writer\<close>: the entries created so far, in order. \<open>last_open\<close> says that the
  last entry is open for writing: \<open>Create\<close> closes the entry before and opens the new
  one, \<open>Close\<close> closes the last one. \<open>closed\<close> is the writer's own flag, which only
  \<open>Close\<close> reads: \<open>Create\<close> does not look at it. Whether a \<open>Create\<close> fails is the
  environment's choice; \<open>io_faults\<close> lists it for the calls to come (\<open>True\<close>: that
  call fails), no fault once the list is used up.
\<close>

record ZipWriter =
  entries :: "(string \<times> chunk list) list"
  io_faults :: "bool list"
  closed :: bool
  last_open :: bool

definition Create :: "ZipWriter \<Rightarrow> string \<Rightarrow> (fault + nat) \<times> ZipWriter" where
  "Create z nm =
     (case io_faults z of
        True # fs \<Rightarrow> (Inl (Err ''zip: i/o error''), z\<lparr>io_faults := fs, last_open := False\<rparr>)
      | False # fs \<Rightarrow>
          (Inr (length (entries z)),
           z\<lparr>entries := entries z @ [(nm, [])], io_faults := fs, last_open := True\<rparr>)
      | [] \<Rightarrow> (Inr (length (entries z)), z\<lparr>entries := entries z @ [(nm, [])], last_open := True\<rparr>))"

definition entry_Write :: "ZipWriter \<Rightarrow> nat \<Rightarrow> chunk \<Rightarrow> fault option \<times> ZipWriter" where
  \<comment> \<open>a write through the \<open>io.Writer\<close> that \<open>Create\<close> returned for entry \<open>k\<close>\<close>
  "entry_Write z k c =
     (if last_open z \<and> Suc k = length (entries z)
      then (None, z\<lparr>entries := (entries z)[k := (fst (entries z ! k), snd (entries z ! k) @ [c])]\<rparr>)
      else (Some (Err ''zip: write to closed file''), z))"

definition zip_Close :: "ZipWriter \<Rightarrow> fault option \<times> ZipWriter" where
  "zip_Close z =
     (if closed z then (Some (Err ''zip: writer closed twice''), z\<lparr>last_open := False\<rparr>)
      else (None, z\<lparr>closed := True, last_open := False\<rparr>))"

definition SamplesLimit :: nat where
  "SamplesLimit = 0x280000"

text \<open>
  An \<open>AnalogChannel\<close>. Its \<open>srzip\<close> pointer is the enclosing \<open>SrZip\<close>; \<open>c_w\<close> is the
  entry its writer belongs to, \<open>None\<close> for the nil writer. A channel handle is the position
  of the channel in \<open>channels\<close>: the list and the caller share the one object.
\<close>

record AnalogChannel =
  c_samples :: nat
  c_part :: nat
  c_w :: "nat option"
  c_channel :: nat
  c_name :: string

record SrZip =
  zipFile :: ZipWriter
  channels :: "AnalogChannel list"
  SampleRate :: nat

definition NewSrZip :: "ZipWriter \<Rightarrow> SrZip" where
  "NewSrZip z = \<lparr>zipFile = z, channels = [], SampleRate = 0\<rparr>"

definition digit :: "nat \<Rightarrow> char" where
  "digit n = char_of (48 + n)"

fun dec :: "nat \<Rightarrow> string" where
  "dec n = (if n < 10 then [digit n] else dec (n div 10) @ [digit (n mod 10)])"

declare dec.simps [simp del]

definition nl :: string where
  "nl = [CHR 0x0A]"

definition part_name :: "AnalogChannel \<Rightarrow> string" where
  "part_name ch = ''analog-1-'' @ dec (c_channel ch) @ ''-'' @ dec (c_part ch)"

definition update :: "nat \<Rightarrow> SrZip \<Rightarrow> fault option \<times> SrZip" where
  "update c sr =
     (let ch = channels sr ! c in
      if c_samples ch mod SamplesLimit = 0 then
        (let ch1 = ch\<lparr>c_part := c_part ch + 1\<rparr>;
             (r, z) = Create (zipFile sr) (part_name ch1)
         in case r of
              Inl e \<Rightarrow>
                (Some (Err (''can't create part for analog ch '' @ c_name ch1)),
                 sr\<lparr>zipFile := z, channels := (channels sr)[c := ch1]\<rparr>)
            | Inr w2 \<Rightarrow>
                (None, sr\<lparr>zipFile := z, channels := (channels sr)[c := ch1\<lparr>c_w := Some w2\<rparr>]\<rparr>))
      else (None, sr))"

definition NewAnalogChannel :: "string \<Rightarrow> SrZip \<Rightarrow> nat \<times> SrZip" where
  "NewAnalogChannel nm sr =
     (let c = length (channels sr);
          ch = \<lparr>c_samples = 0, c_part = 0, c_w = None,
                c_channel = length (channels sr) + 1, c_name = nm\<rparr>;
          sr1 = sr\<lparr>channels := channels sr @ [ch]\<rparr>
      in (c, snd (update c sr1)))"

definition Write :: "nat \<Rightarrow> float32 \<Rightarrow> SrZip \<Rightarrow> fault option \<times> SrZip" where
  "Write c v sr =
     (case c_w (channels sr ! c) of
        None \<Rightarrow> (Some NilDeref, sr)
      | Some k \<Rightarrow>
          (let z = snd (entry_Write (zipFile sr) k (F32 v));
               ch = channels sr ! c
           in update c (sr\<lparr>zipFile := z,
                            channels := (channels sr)[c := ch\<lparr>c_samples := c_samples ch + 1\<rparr>]\<rparr>)))"

definition createFile :: "string \<Rightarrow> string \<Rightarrow> SrZip \<Rightarrow> fault option \<times> SrZip" where
  "createFile nm contents sr =
     (case Create (zipFile sr) nm of
        (Inl e, z) \<Rightarrow> (Some e, sr\<lparr>zipFile := z\<rparr>)
      | (Inr k, z) \<Rightarrow>
          (case entry_Write z k (Txt contents) of (e, z1) \<Rightarrow> (e, sr\<lparr>zipFile := z1\<rparr>)))"

definition channel_line :: "AnalogChannel \<Rightarrow> string" where
  "channel_line ch = ''analog'' @ dec (c_channel ch) @ ''='' @ c_name ch @ nl"

definition metadata :: "SrZip \<Rightarrow> string" where
  "metadata sr =
     nl @ ''[device 1]'' @ nl @ ''samplerate='' @ dec (SampleRate sr) @ nl @
     ''total analog='' @ dec (length (channels sr)) @ nl @
     concat (map channel_line (channels sr))"

definition Close :: "SrZip \<Rightarrow> fault option \<times> SrZip" where
  "Close sr =
     (case createFile ''version'' (''2'' @ nl) sr of
        (Some e, sr1) \<Rightarrow> (Some e, sr1)
      | (None, sr1) \<Rightarrow>
          (case createFile ''metadata'' (metadata sr) sr1 of
             (Some e, sr2) \<Rightarrow> (Some e, sr2)
           | (None, sr2) \<Rightarrow>
               (case zip_Close (zipFile sr2) of (e, z) \<Rightarrow> (e, sr2\<lparr>zipFile := z\<rparr>))))"

section \<open>The converter (main)\<close>

type_synonym byte = "8 word"

text \<open>
  The command-line flags, and what \<open>main\<close> has decoded from the input file when the
  conversion starts: the header's scales and offsets (arrays of four, indexed from 0) and
  the data specification read at \<open>0xF4\<close>.
\<close>

record Flags =
  use_10x :: bool
  writeRaw :: bool
  applyOffset :: bool
  startOffset :: float64
  decimate :: int

record Header =
  Scales :: "nat \<Rightarrow> float64"
  Offsets :: "nat \<Rightarrow> float64"

record DataSpec =
  Points :: "32 word"
  spec_SampleRate :: float64

text \<open>
  The buffered reader over the sample data is the list of the bytes still unread.
\<close>

definition ReadByte :: "byte list \<Rightarrow> fault + byte \<times> byte list" where
  "ReadByte rbuf = (case rbuf of [] \<Rightarrow> Inl (Err ''EOF'') | v # r \<Rightarrow> Inr (v, r))"

definition Discard :: "int \<Rightarrow> byte list \<Rightarrow> fault + byte list" where
  "Discard n rbuf =
     (if n < 0 then Inl (Err ''bufio: negative count'')
      else if nat n \<le> length rbuf then Inr (drop (nat n) rbuf)
      else Inl (Err ''EOF''))"

text \<open>
  The two implementations of the \<open>ValueWriter\<close> interface, and the state they write to:
  the values handed to the raw file, and the archive.
\<close>

datatype ValueWriter = FileValueWriter | SrValueWriter nat

record sinks =
  rawfile :: "float32 list"
  srz :: SrZip

definition output_Write :: "ValueWriter \<Rightarrow> sinks \<Rightarrow> float32 \<Rightarrow> fault option \<times> sinks" where
  "output_Write out s v =
     (case out of
        FileValueWriter \<Rightarrow> (None, s\<lparr>rawfile := rawfile s @ [v]\<rparr>)
      | SrValueWriter c \<Rightarrow> (case Write c v (srz s) of (e, sr1) \<Rightarrow> (e, s\<lparr>srz := sr1\<rparr>)))"

definition output_Close :: "ValueWriter \<Rightarrow> sinks \<Rightarrow> fault option \<times> sinks" where
  "output_Close out s = (None, s)"

datatype 's pass_result = Finished 's "byte list" | Faulted fault 's | Stopped string 's

definition decimateSkip :: "int \<Rightarrow> nat" where
  \<comment> \<open>\<open>uint(*decimate) - 1\<close> in 64 bits\<close>
  "decimateSkip d = (nat (d mod 2 ^ 64) + (2 ^ 64 - 1)) mod 2 ^ 64"

definition valueScaler :: "float64 \<Rightarrow> float64" where
  "valueScaler scale = fdiv (fmul scale (const64 (107 / 10))) (const64 256)"

definition sample_value :: "float64 \<Rightarrow> float64 \<Rightarrow> byte \<Rightarrow> float32" where
  \<comment> \<open>lines 212 to 222: \<open>v2 := float64(int(v)-128) * valueScaler; v2 -= offset; float32(v2)\<close>\<close>
  "sample_value vs off v = to_float32 (fsub (fmul (float64_of_int (uint v - 128)) vs) off)"

text \<open>
  The loop over the samples of one channel (lines 197 to 226), for any writer \<open>wr\<close>.
  The counter \<open>i\<close> is a 64-bit \<open>uint\<close>; inside the loop \<open>i < P < 2 ^ 32\<close> and
  \<open>skip < 2 ^ 63\<close>, so no addition wraps and the counter is a natural number.
\<close>

function sample_loop ::
  "('s \<Rightarrow> float32 \<Rightarrow> fault option \<times> 's) \<Rightarrow> nat \<Rightarrow> nat \<Rightarrow> float64 \<Rightarrow> float64 \<Rightarrow>
   nat \<Rightarrow> byte list \<Rightarrow> 's \<Rightarrow> 's pass_result" where
  "sample_loop wr P skip vs off i rbuf s =
     (if i < P then
        (case ReadByte rbuf of
           Inl e \<Rightarrow> Faulted e s
         | Inr (v, r1) \<Rightarrow>
             (case (if 0 < skip \<and> i + skip < P
                    then (case Discard (int_of_uint skip) r1 of
                            Inl e \<Rightarrow> Inl e
                          | Inr r2 \<Rightarrow> Inr (i + skip, r2))
                    else Inr (i, r1)) of
                Inl e \<Rightarrow> Faulted e s
              | Inr (i1, r2) \<Rightarrow>
                  (case wr s (sample_value vs off v) of
                     (Some e, s1) \<Rightarrow> Faulted e s1
                   | (None, s1) \<Rightarrow> sample_loop wr P skip vs off (i1 + 1) r2 s1)))
      else Finished s rbuf)"
  by pat_completeness auto
termination
  by (relation "measure (\<lambda>(wr, P, skip, vs, off, i, rbuf, s). P - i)")
     (auto split: if_splits sum.splits)

declare sample_loop.simps [simp del]

text \<open>
  The single-channel converter (convert.go) runs the same loop over the samples (lines 169
  to 192) with another expression for the value: line 184 multiplies the sample by the
  scale, then by \<open>10.7\<close>, then divides by \<open>256\<close>, from left to right; line 185
  subtracts the offset and line 188 casts to \<open>float32\<close>.
\<close>

definition convert_go_value :: "float64 \<Rightarrow> float64 \<Rightarrow> byte \<Rightarrow> float32" where
  \<comment> \<open>convert.go, lines 184 to 188:
      \<open>v2 := float64(int(v)-128) * hdr.Scale1 * 10.7 / 256; v2 -= offset; float32(v2)\<close>\<close>
  "convert_go_value scale off v =
     to_float32 (fsub (fdiv (fmul (fmul (float64_of_int (uint v - 128)) scale)
                                  (const64 (107 / 10))) (const64 256)) off)"

function convert_go_loop ::
  "('s \<Rightarrow> float32 \<Rightarrow> fault option \<times> 's) \<Rightarrow> nat \<Rightarrow> nat \<Rightarrow> float64 \<Rightarrow> float64 \<Rightarrow>
   nat \<Rightarrow> byte list \<Rightarrow> 's \<Rightarrow> 's pass_result" where
  "convert_go_loop wr P skip scale off i rbuf s =
     (if i < P then
        (case ReadByte rbuf of
           Inl e \<Rightarrow> Faulted e s
         | Inr (v, r1) \<Rightarrow>
             (case (if 0 < skip \<and> i + skip < P
                    then (case Discard (int_of_uint skip) r1 of
                            Inl e \<Rightarrow> Inl e
                          | Inr r2 \<Rightarrow> Inr (i + skip, r2))
                    else Inr (i, r1)) of
                Inl e \<Rightarrow> Faulted e s
              | Inr (i1, r2) \<Rightarrow>
                  (case wr s (convert_go_value scale off v) of
                     (Some e, s1) \<Rightarrow> Faulted e s1
                   | (None, s1) \<Rightarrow> convert_go_loop wr P skip scale off (i1 + 1) r2 s1)))
      else Finished s rbuf)"
  by pat_completeness auto
termination
  by (relation "measure (\<lambda>(wr, P, skip, scale, off, i, rbuf, s). P - i)")
     (auto split: if_splits sum.splits)

declare convert_go_loop.simps [simp del]

definition startPoint :: "(float64 \<Rightarrow> nat) \<Rightarrow> Flags \<Rightarrow> DataSpec \<Rightarrow> nat" where
  \<comment> \<open>line 182: \<open>uint(*startOffset * dataSpec.SampleRate / 1000)\<close>\<close>
  "startPoint impl cfg spec =
     uint_of_float64 impl (fdiv (fmul (startOffset cfg) (spec_SampleRate spec)) (const64 1000))"

definition start_discard ::
  "(float64 \<Rightarrow> nat) \<Rightarrow> Flags \<Rightarrow> DataSpec \<Rightarrow> byte list \<Rightarrow> string + nat \<times> byte list" where
  \<comment> \<open>lines 178 to 188: the start value of \<open>i\<close> and the reader after the discard\<close>
  "start_discard impl cfg spec rbuf =
     (if fp_positive (startOffset cfg) then
        (case Discard (int_of_uint (startPoint impl cfg spec)) rbuf of
           Inl e \<Rightarrow> Inl ''cannot skip to start offset''
         | Inr r \<Rightarrow> Inr (startPoint impl cfg spec, r))
      else Inr (0, rbuf))"

definition channel_scale :: "Flags \<Rightarrow> Header \<Rightarrow> nat \<Rightarrow> float64" where
  "channel_scale cfg hdr chNum =
     (let scale = Scales hdr (chNum - 1)
      in if use_10x cfg then fmul scale (const64 10) else scale)"

definition channel_offset :: "Flags \<Rightarrow> Header \<Rightarrow> nat \<Rightarrow> float64" where
  "channel_offset cfg hdr chNum =
     (let offset = Offsets hdr (chNum - 1);
          offset = (if use_10x cfg then fmul offset (const64 10) else offset)
      in if \<not> applyOffset cfg then Finite 0 else offset)"

definition open_output :: "Flags \<Rightarrow> nat \<Rightarrow> sinks \<Rightarrow> ValueWriter \<times> sinks" where
  \<comment> \<open>lines 173 to 176; in raw mode \<open>output\<close> stays the file writer opened before the loop\<close>
  "open_output cfg chNum s =
     (if \<not> writeRaw cfg
      then (case NewAnalogChannel (''Ch '' @ dec chNum) (srz s) of
              (c, sr1) \<Rightarrow> (SrValueWriter c, s\<lparr>srz := sr1\<rparr>))
      else (FileValueWriter, s))"

definition convert_channel ::
  "(float64 \<Rightarrow> nat) \<Rightarrow> Flags \<Rightarrow> Header \<Rightarrow> DataSpec \<Rightarrow> nat \<Rightarrow> byte list \<Rightarrow> sinks \<Rightarrow>
   sinks pass_result" where
  \<comment> \<open>the body of the loop over the channels, lines 155 to 230\<close>
  "convert_channel impl cfg hdr spec chNum rbuf s =
     (let scale = channel_scale cfg hdr chNum;
          offset = channel_offset cfg hdr chNum;
          (out, s1) = open_output cfg chNum s
      in case start_discard impl cfg spec rbuf of
           Inl msg \<Rightarrow> Stopped msg s1
         | Inr (i, r1) \<Rightarrow>
             (case sample_loop (output_Write out) (unat (Points spec))
                     (decimateSkip (decimate cfg)) (valueScaler scale) offset i r1 s1 of
                Finished s2 r2 \<Rightarrow>
                  (case output_Close out s2 of
                     (Some e, s3) \<Rightarrow> Faulted e s3
                   | (None, s3) \<Rightarrow> Finished s3 r2)
              | Faulted e s2 \<Rightarrow> Faulted e s2
              | Stopped msg s2 \<Rightarrow> Stopped msg s2))"

fun run_channels ::
  "(float64 \<Rightarrow> nat) \<Rightarrow> Flags \<Rightarrow> Header \<Rightarrow> DataSpec \<Rightarrow> nat list \<Rightarrow> byte list \<Rightarrow> sinks \<Rightarrow>
   sinks pass_result" where
  "run_channels impl cfg hdr spec [] rbuf s = Finished s rbuf"
| "run_channels impl cfg hdr spec (chNum # rest) rbuf s =
     (if rbuf = [] then Finished s rbuf
      else if writeRaw cfg \<and> 1 < chNum then Finished s rbuf
      else case convert_channel impl cfg hdr spec chNum rbuf s of
             Finished s1 r1 \<Rightarrow> run_channels impl cfg hdr spec rest r1 s1
           | Faulted e s1 \<Rightarrow> Faulted e s1
           | Stopped msg s1 \<Rightarrow> Stopped msg s1)"

datatype exit = Completed | Returned string | Panicked fault

text \<open>
  \<open>main\<close> from line 79 on, the input file already opened and decoded: \<open>data\<close> is the
  content of the file from \<open>0x800\<close>, \<open>z0\<close> the empty archive that \<open>NewSrZipFile\<close>
  opens. The result is how the run ends, the values written to the raw file and, when one
  was created, the archive; \<open>sr.Close\<close> is deferred, so it runs however the run ends.
\<close>

definition main ::
  "(float64 \<Rightarrow> nat) \<Rightarrow> Flags \<Rightarrow> Header \<Rightarrow> DataSpec \<Rightarrow> byte list \<Rightarrow> ZipWriter \<Rightarrow>
   exit \<times> float32 list \<times> SrZip option" where
  "main impl cfg hdr spec data z0 =
     (if decimate cfg < 1 then (Returned ''decimation factor cannot be less than 1'', [], None)
      else
        (let sr = (NewSrZip z0)\<lparr>SampleRate :=
                    uint_of_float64 impl
                      (fdiv (spec_SampleRate spec) (float64_of_int (decimate cfg)))\<rparr>;
             r = run_channels impl cfg hdr spec [1, 2, 3, 4] data \<lparr>rawfile = [], srz = sr\<rparr>;
             (ex, s1) = (case r of
                           Finished s r1 \<Rightarrow> (Completed, s)
                         | Faulted e s \<Rightarrow> (Panicked e, s)
                         | Stopped msg s \<Rightarrow> (Returned msg, s))
         in (ex, rawfile s1,
             if writeRaw cfg then None else Some (snd (Close (srz s1))))))"

section \<open>What the loops do, as lists\<close>

text \<open>
  The descriptions that the theorems compare the code with. \<open>emit_all\<close> hands a list of
  values to a writer, one after the other, and stops at the first fault of the writer.
  \<open>kept\<close> is the selection the decimation makes: the first byte is kept, the next
  \<open>skip\<close> bytes are dropped when that many bytes and one more are left, and no byte is
  dropped otherwise.
\<close>

fun emit_all ::
  "('s \<Rightarrow> float32 \<Rightarrow> fault option \<times> 's) \<Rightarrow> float32 list \<Rightarrow> byte list \<Rightarrow> 's \<Rightarrow> 's pass_result" where
  "emit_all wr [] rest s = Finished s rest"
| "emit_all wr (v # vs) rest s =
     (case wr s v of (Some e, s1) \<Rightarrow> Faulted e s1 | (None, s1) \<Rightarrow> emit_all wr vs rest s1)"

function kept :: "nat \<Rightarrow> 'a list \<Rightarrow> 'a list" where
  "kept skip [] = []"
| "kept skip (x # r) =
     x # kept skip (if 0 < skip \<and> skip < length (x # r) then drop skip r else r)"
  by pat_completeness auto
termination
  by (relation "measure (\<lambda>(skip, xs). length xs)") auto

declare kept.simps [simp del]

definition start_index :: "(float64 \<Rightarrow> nat) \<Rightarrow> Flags \<Rightarrow> DataSpec \<Rightarrow> nat" where
  \<comment> \<open>the value of \<open>i\<close> when the loop over the samples starts\<close>
  "start_index impl cfg spec =
     (if fp_positive (startOffset cfg) then startPoint impl cfg spec else 0)"

text \<open>
  The segments of one channel after the samples \<open>ws\<close> have been written to it: segment
  \<open>k\<close> (counted from 0) is named by the channel index and the part number \<open>k + 1\<close> and
  holds the samples from position \<open>k * SamplesLimit\<close> on, \<open>SamplesLimit\<close> of them at
  most. \<open>writes\<close> is a sequence of calls of \<open>Write\<close> on one channel, up to the first
  fault, and \<open>writing\<close> the state of a channel and of the archive between two of them.
\<close>

definition seg_name :: "nat \<Rightarrow> nat \<Rightarrow> string" where
  "seg_name idx p = ''analog-1-'' @ dec idx @ ''-'' @ dec p"

definition seg :: "nat \<Rightarrow> float32 list \<Rightarrow> nat \<Rightarrow> string \<times> chunk list" where
  "seg idx ws k = (seg_name idx (k + 1), map F32 (take SamplesLimit (drop (k * SamplesLimit) ws)))"

definition parts :: "nat \<Rightarrow> float32 list \<Rightarrow> (string \<times> chunk list) list" where
  "parts idx ws = map (seg idx ws) [0..<length ws div SamplesLimit + 1]"

fun writes :: "nat \<Rightarrow> float32 list \<Rightarrow> SrZip \<Rightarrow> fault option \<times> SrZip" where
  "writes c [] sr = (None, sr)"
| "writes c (v # vs) sr =
     (case Write c v sr of (None, sr1) \<Rightarrow> writes c vs sr1 | (Some e, sr1) \<Rightarrow> (Some e, sr1))"

definition writing ::
  "(string \<times> chunk list) list \<Rightarrow> nat \<Rightarrow> string \<Rightarrow> nat \<Rightarrow> float32 list \<Rightarrow> SrZip \<Rightarrow> bool" where
  "writing E0 idx nm c ws sr \<longleftrightarrow>
     c < length (channels sr) \<and>
     channels sr ! c = \<lparr>c_samples = length ws, c_part = length ws div SamplesLimit + 1,
                         c_w = Some (length E0 + length ws div SamplesLimit),
                         c_channel = idx, c_name = nm\<rparr> \<and>
     entries (zipFile sr) = E0 @ parts idx ws \<and>
     io_faults (zipFile sr) = [] \<and> \<not> closed (zipFile sr) \<and> last_open (zipFile sr)"

text \<open>
  The per-sample transform, twice. \<open>spec_transform\<close> follows the words of the
  specification, \<open>(float64(b) - 128) * s * 10.7 / 256 - o\<close> from left to right, then
  the cast. \<open>transform\<close> is what lines 195, 212, 213 and 222 compute for a byte,
  the scale and the offset of a channel: the scaler \<open>s * 10.7 / 256\<close> first.
\<close>

definition spec_transform :: "byte \<Rightarrow> float64 \<Rightarrow> float64 \<Rightarrow> float32" where
  "spec_transform b s o' =
     to_float32 (fsub (fdiv (fmul (fmul (fsub (float64_of_int (uint b)) (const64 128)) s)
                                  (const64 (107 / 10))) (const64 256)) o')"

definition transform :: "byte \<Rightarrow> float64 \<Rightarrow> float64 \<Rightarrow> float32" where
  "transform b s o' =
     to_float32 (fsub (fmul (float64_of_int (uint b - 128))
                            (fdiv (fmul s (const64 (107 / 10))) (const64 256))) o')"

text \<open>
  The state a pass ends in, and the two facts about the archive that hold all along a
  conversion: it is not closed and all its entries are segments of channels. \<open>nf\<close> says
  whether the archive started without faults to come, \<open>r\<close> is the sample rate set at the
  start.
\<close>

fun result_state :: "'s pass_result \<Rightarrow> 's" where
  "result_state (Finished s r) = s"
| "result_state (Faulted e s) = s"
| "result_state (Stopped m s) = s"

definition sr_inv :: "bool \<Rightarrow> nat \<Rightarrow> SrZip \<Rightarrow> bool" where
  "sr_inv nf r sr \<longleftrightarrow>
     \<not> closed (zipFile sr) \<and>
     list_all (\<lambda>e. take 9 (fst e) = ''analog-1-'') (entries (zipFile sr)) \<and>
     SampleRate sr = r \<and>
     (if nf then io_faults (zipFile sr) = [] else True)"

text \<open>
  Any use of the writer: channels are created and samples written through the handles
  that \<open>NewAnalogChannel\<close> returned, whatever the calls return.
\<close>

datatype sr_op = OpNew string | OpWrite nat float32

fun run_ops :: "sr_op list \<Rightarrow> SrZip \<Rightarrow> SrZip" where
  "run_ops [] sr = sr"
| "run_ops (OpNew nm # ops) sr = run_ops ops (snd (NewAnalogChannel nm sr))"
| "run_ops (OpWrite c v # ops) sr =
     run_ops ops (if c < length (channels sr) then snd (Write c v sr) else sr)"

fun created :: "sr_op list \<Rightarrow> string list" where
  "created [] = []"
| "created (OpNew nm # ops) = nm # created ops"
| "created (OpWrite c v # ops) = created ops"

definition labels :: "SrZip \<Rightarrow> (nat \<times> string) list" where
  "labels sr = map (\<lambda>ch. (c_channel ch, c_name ch)) (channels sr)"

definition label_line :: "nat \<times> string \<Rightarrow> string" where
  "label_line l = ''analog'' @ dec (fst l) @ ''='' @ snd l @ nl"

section \<open>The loop over the samples\<close>

lemma int_of_uint_small: "n < 2 ^ 63 \<Longrightarrow> int_of_uint n = int n"
  by (simp add: int_of_uint_def)

lemma decimateSkip_eq: "1 \<le> d \<Longrightarrow> d < 2 ^ 63 \<Longrightarrow> decimateSkip d = nat (d - 1)"
proof -
  assume d: "1 \<le> d" "d < 2 ^ 63"
  have "d mod 2 ^ 64 = d" using d by simp
  moreover have "(nat d + (2 ^ 64 - 1)) mod 2 ^ 64 = nat d - 1"
  proof -
    have "nat d + (2 ^ 64 - 1) = (nat d - 1) + 1 * 2 ^ 64" using d by simp
    moreover have "nat d - 1 < 2 ^ 64" using d by simp
    ultimately show ?thesis by (metis mod_less mod_mult_self1 mult.commute)
  qed
  ultimately show ?thesis using d by (simp add: decimateSkip_def nat_diff_distrib)
qed

lemma sample_loop_emit:
  "i \<le> P \<Longrightarrow> P - i \<le> length rbuf \<Longrightarrow> skip < 2 ^ 63 \<Longrightarrow>
   sample_loop wr P skip vs off i rbuf s =
     emit_all wr (map (sample_value vs off) (kept skip (take (P - i) rbuf))) (drop (P - i) rbuf) s"
proof (induction "P - i" arbitrary: i rbuf s rule: less_induct)
  case less
  show ?case
  proof (cases "i < P")
    case False
    then show ?thesis using less.prems by (simp add: sample_loop.simps kept.simps)
  next
    case True
    then obtain v r1 where rb: "rbuf = v # r1"
      using less.prems by (cases rbuf) auto
    obtain n where n: "P - i = Suc n" using True by (cases "P - i") auto
    have iu: "int_of_uint skip = int skip" using less.prems by (simp add: int_of_uint_small)
    show ?thesis
    proof (cases "0 < skip \<and> i + skip < P")
      case dec: True
      then have sk: "skip \<le> length r1" using less.prems rb by (simp, arith)
      have pn: "P - (i + skip + 1) = n - skip" using n dec by arith
      have tk: "take (P - (i + skip + 1)) (drop skip r1) = drop skip (take n r1)"
        unfolding pn by (simp add: drop_take)
      have "skip \<le> n" using n dec by arith
      then have dr: "drop (P - (i + skip + 1)) (drop skip r1) = drop n r1"
        unfolding pn by simp
      have "sample_loop wr P skip vs off (i + skip + 1) (drop skip r1) s1 =
            emit_all wr (map (sample_value vs off) (kept skip (take (P - (i + skip + 1)) (drop skip r1))))
              (drop (P - (i + skip + 1)) (drop skip r1)) s1" for s1
        using dec less.prems rb True by (intro less.hyps) auto
      then have IH: "sample_loop wr P skip vs off (Suc (i + skip)) (drop skip r1) s1 =
            emit_all wr (map (sample_value vs off) (kept skip (drop skip (take n r1)))) (drop n r1) s1" for s1
        using tk dr by simp
      have len: "skip < length (v # take n r1)" using n dec less.prems rb by (simp, arith)
      show ?thesis
        using dec True sk len
        apply (subst sample_loop.simps)
        apply (simp add: rb ReadByte_def Discard_def iu n kept.simps IH
              split: prod.splits option.splits)
        done
    next
      case nodec: False
      have n': "P - (i + 1) = n" using n by simp
      have "sample_loop wr P skip vs off (i + 1) r1 s1 =
            emit_all wr (map (sample_value vs off) (kept skip (take (P - (i + 1)) r1)))
              (drop (P - (i + 1)) r1) s1" for s1
        using less.prems rb True by (intro less.hyps) auto
      then have IH: "sample_loop wr P skip vs off (Suc i) r1 s1 =
            emit_all wr (map (sample_value vs off) (kept skip (take n r1))) (drop n r1) s1" for s1
        using n' by simp
      have len: "\<not> (0 < skip \<and> skip < length (v # take n r1))"
        using n nodec less.prems rb by (simp, arith)
      have k: "kept skip (v # take n r1) = v # kept skip (take n r1)"
        by (subst kept.simps) (use len in auto)
      have c: "(0 < skip \<and> i + skip < P) = False" using nodec by simp
      show ?thesis
        using True
        apply (subst sample_loop.simps)
        apply (simp add: rb ReadByte_def n k c IH split: prod.splits option.splits)
        done
    qed
  qed
qed

lemma length_kept: "length (kept skip xs) = length xs div (skip + 1) + length xs mod (skip + 1)"
proof (induction skip xs rule: kept.induct)
  case (1 skip)
  then show ?case by (simp add: kept.simps)
next
  case (2 skip x r)
  let ?rest = "if 0 < skip \<and> skip < length (x # r) then drop skip r else r"
  have IH: "length (kept skip ?rest) = length ?rest div (skip + 1) + length ?rest mod (skip + 1)"
    using 2 by simp
  have unf: "length (kept skip (x # r)) = Suc (length (kept skip ?rest))"
    by (subst kept.simps) simp
  show ?case
  proof (cases "0 < skip \<and> skip < length (x # r)")
    case True
    then have ge: "skip + 1 \<le> length (x # r)" by simp
    have r: "?rest = drop skip r" using True by simp
    have "length (x # r) - (skip + 1) = length r - skip" by simp
    then have "length (x # r) div (skip + 1) = Suc ((length r - skip) div (skip + 1))"
      and "length (x # r) mod (skip + 1) = (length r - skip) mod (skip + 1)"
      using ge le_div_geq[of "skip + 1" "length (x # r)"] le_mod_geq[of "skip + 1" "length (x # r)"]
      by simp_all
    then show ?thesis using IH unf unfolding r by simp
  next
    case False
    then have r: "?rest = r" by auto
    have eq: "length (kept skip (x # r)) = Suc (length r div (skip + 1) + length r mod (skip + 1))"
      using IH unf unfolding r by simp
    show ?thesis
    proof (cases "skip = 0")
      case True
      then show ?thesis using eq by simp
    next
      case sk: False
      then have "Suc (length r) < skip + 1" using False by simp
      then show ?thesis using eq by simp
    qed
  qed
qed

lemma kept_0: "kept 0 xs = xs"
  by (induction xs) (simp_all add: kept.simps)

section \<open>Segments\<close>

lemma SamplesLimit_pos: "0 < SamplesLimit"
  by (simp add: SamplesLimit_def)

lemma seg_full_snoc:
  assumes "k < length ws div SamplesLimit"
  shows "seg idx (ws @ [v]) k = seg idx ws k"
proof -
  let ?L = SamplesLimit
  have "(k + 1) * ?L \<le> (length ws div ?L) * ?L" using assms by (intro mult_le_mono1) simp
  also have "\<dots> \<le> length ws" by simp
  finally have "k * ?L + ?L \<le> length ws" by simp
  then show ?thesis by (simp add: seg_def)
qed

lemma seg_last:
  "seg idx ws (length ws div SamplesLimit) =
     (seg_name idx (length ws div SamplesLimit + 1),
      map F32 (drop (length ws div SamplesLimit * SamplesLimit) ws))"
proof -
  let ?L = SamplesLimit
  have "length ws - length ws div ?L * ?L < ?L"
    using SamplesLimit_pos
    by (metis add_diff_cancel_left' div_mult_mod_eq mod_less_divisor mult.commute)
  then show ?thesis by (simp add: seg_def)
qed

lemma parts_last:
  "parts idx ws = map (seg idx ws) [0..<length ws div SamplesLimit] @
     [(seg_name idx (length ws div SamplesLimit + 1),
       map F32 (drop (length ws div SamplesLimit * SamplesLimit) ws))]"
  by (simp add: parts_def seg_last)

lemma parts_snoc_same:
  assumes "Suc (length ws) mod SamplesLimit \<noteq> 0"
  shows "parts idx (ws @ [v]) = map (seg idx ws) [0..<length ws div SamplesLimit] @
     [(seg_name idx (length ws div SamplesLimit + 1),
       map F32 (drop (length ws div SamplesLimit * SamplesLimit) ws) @ [F32 v])]"
proof -
  let ?L = SamplesLimit
  let ?q = "length ws div ?L"
  have q: "length (ws @ [v]) div ?L = ?q"
    using assms by (simp add: div_Suc)
  have "parts idx (ws @ [v]) = map (seg idx (ws @ [v])) [0..<?q] @
     [(seg_name idx (?q + 1), map F32 (drop (?q * ?L) (ws @ [v])))]"
    unfolding parts_last q ..
  moreover have "map (seg idx (ws @ [v])) [0..<?q] = map (seg idx ws) [0..<?q]"
    by (rule map_cong) (simp_all add: seg_full_snoc)
  ultimately show ?thesis by simp
qed

lemma parts_snoc_new:
  assumes "Suc (length ws) mod SamplesLimit = 0"
  shows "parts idx (ws @ [v]) = map (seg idx ws) [0..<length ws div SamplesLimit] @
     [(seg_name idx (length ws div SamplesLimit + 1),
       map F32 (drop (length ws div SamplesLimit * SamplesLimit) ws) @ [F32 v]),
      (seg_name idx (length ws div SamplesLimit + 2), [])]"
proof -
  let ?L = SamplesLimit
  let ?q = "length ws div ?L"
  have q: "length (ws @ [v]) div ?L = Suc ?q"
    using assms by (simp add: div_Suc)
  have full: "Suc ?q * ?L = Suc (length ws)"
    using assms q by (metis add.right_neutral div_mult_mod_eq length_append_singleton)
  have "parts idx (ws @ [v]) = map (seg idx (ws @ [v])) [0..<Suc ?q] @
     [(seg_name idx (Suc ?q + 1), map F32 (drop (Suc ?q * ?L) (ws @ [v])))]"
    unfolding parts_last q ..
  moreover have "map (seg idx (ws @ [v])) [0..<?q] = map (seg idx ws) [0..<?q]"
    by (rule map_cong) (simp_all add: seg_full_snoc)
  moreover have "seg idx (ws @ [v]) ?q =
      (seg_name idx (?q + 1), map F32 (drop (?q * ?L) ws) @ [F32 v])"
  proof -
    have "Suc (length ws) - ?q * ?L = ?L" unfolding full[symmetric] by simp
    then have "length (drop (?q * ?L) (ws @ [v])) = ?L" by (simp add: Suc_diff_le)
    then have "take ?L (drop (?q * ?L) (ws @ [v])) = drop (?q * ?L) (ws @ [v])" by simp
    then show ?thesis by (simp add: seg_def)
  qed
  moreover have "drop (Suc ?q * ?L) (ws @ [v]) = []" using full by simp
  ultimately show ?thesis by simp
qed

lemma part_name_seg: "part_name ch = seg_name (c_channel ch) (c_part ch)"
  by (simp add: part_name_def seg_name_def)

lemma Create_ok:
  "io_faults z = [] \<Longrightarrow>
   Create z nm = (Inr (length (entries z)), z\<lparr>entries := entries z @ [(nm, [])], last_open := True\<rparr>)"
  by (simp add: Create_def)

lemma NewAnalogChannel_writing:
  assumes "io_faults (zipFile sr) = []" "\<not> closed (zipFile sr)"
  shows "fst (NewAnalogChannel nm sr) = length (channels sr) \<and>
         writing (entries (zipFile sr)) (length (channels sr) + 1) nm (length (channels sr)) []
           (snd (NewAnalogChannel nm sr))"
  using assms
  by (simp add: NewAnalogChannel_def update_def Create_ok writing_def parts_def seg_def
        part_name_seg Let_def nth_append)

lemma Write_writing:
  assumes "writing E0 idx nm c ws sr"
  shows "fst (Write c v sr) = None \<and> writing E0 idx nm c (ws @ [v]) (snd (Write c v sr))"
proof -
  let ?L = SamplesLimit
  let ?q = "length ws div ?L"
  let ?front = "map (seg idx ws) [0..<?q]"
  let ?cur = "map F32 (drop (?q * ?L) ws)"
  from assms have c: "c < length (channels sr)"
    and ch: "channels sr ! c = \<lparr>c_samples = length ws, c_part = ?q + 1,
                c_w = Some (length E0 + ?q), c_channel = idx, c_name = nm\<rparr>"
    and en: "entries (zipFile sr) = E0 @ parts idx ws"
    and nf: "io_faults (zipFile sr) = []" and nc: "\<not> closed (zipFile sr)"
    and lo: "last_open (zipFile sr)"
    by (simp_all add: writing_def)
  have en': "entries (zipFile sr) = E0 @ ?front @ [(seg_name idx (?q + 1), ?cur)]"
    by (simp add: en parts_last)
  have nth: "(E0 @ ?front @ [e]) ! (length E0 + ?q) = e" for e
    by (simp add: nth_append)
  have upd: "(E0 @ ?front @ [e])[length E0 + ?q := e'] = E0 @ ?front @ [e']" for e e'
    by (simp add: list_update_append)
  have ew: "entry_Write (zipFile sr) (length E0 + ?q) (F32 v) =
      (None, (zipFile sr)\<lparr>entries := E0 @ ?front @ [(seg_name idx (?q + 1), ?cur @ [F32 v])]\<rparr>)"
    unfolding entry_Write_def en' nth upd using lo by simp
  show ?thesis
  proof (cases "Suc (length ws) mod ?L = 0")
    case True
    have q: "Suc (length ws) div ?L = Suc ?q" using True by (simp add: div_Suc)
    show ?thesis
      using True c nf nc lo
      by (simp add: Write_def ch ew update_def Create_ok writing_def parts_snoc_new q
            part_name_seg Let_def)
  next
    case False
    have q: "Suc (length ws) div ?L = ?q" using False by (simp add: div_Suc)
    show ?thesis
      using False c nf nc lo
      by (simp add: Write_def ch ew update_def writing_def parts_snoc_same q Let_def)
  qed
qed

lemma writes_writing:
  "writing E0 idx nm c ws sr \<Longrightarrow>
   fst (writes c vs sr) = None \<and> writing E0 idx nm c (ws @ vs) (snd (writes c vs sr))"
proof (induction vs arbitrary: ws sr)
  case Nil
  then show ?case by simp
next
  case (Cons v vs)
  from Write_writing[OF Cons.prems, of v]
  obtain sr1 where w: "Write c v sr = (None, sr1)" and inv: "writing E0 idx nm c (ws @ [v]) sr1"
    by (cases "Write c v sr") auto
  from Cons.IH[OF inv] show ?case by (simp add: w)
qed

section \<open>The conversion of one channel\<close>

lemma emit_all_raw:
  "emit_all (output_Write FileValueWriter) vals rest s = Finished (s\<lparr>rawfile := rawfile s @ vals\<rparr>) rest"
  by (induction vals arbitrary: s) (simp_all add: output_Write_def)

lemma pass_result_same:
  "(case r of Finished s2 r2 \<Rightarrow> (case output_Close out s2 of (Some e, s3) \<Rightarrow> Faulted e s3
                                    | (None, s3) \<Rightarrow> Finished s3 r2)
            | Faulted e s2 \<Rightarrow> Faulted e s2 | Stopped msg s2 \<Rightarrow> Stopped msg s2) = r"
  by (cases r) (simp_all add: output_Close_def)

lemma start_discard_ok:
  assumes "start_index impl cfg spec \<le> length rbuf" "start_index impl cfg spec < 2 ^ 63"
  shows "start_discard impl cfg spec rbuf =
           Inr (start_index impl cfg spec, drop (start_index impl cfg spec) rbuf)"
proof (cases "fp_positive (startOffset cfg)")
  case True
  then have i: "start_index impl cfg spec = startPoint impl cfg spec"
    by (simp add: start_index_def)
  have "int_of_uint (startPoint impl cfg spec) = int (startPoint impl cfg spec)"
    using assms(2) unfolding i by (rule int_of_uint_small)
  then show ?thesis using True assms(1) by (simp add: start_discard_def i Discard_def)
next
  case False
  then show ?thesis by (simp add: start_discard_def start_index_def)
qed

lemma convert_channel_emit:
  assumes d: "1 \<le> decimate cfg" "decimate cfg < 2 ^ 63"
    and sp: "start_index impl cfg spec \<le> unat (Points spec)"
    and len: "unat (Points spec) \<le> length rbuf"
  shows "convert_channel impl cfg hdr spec chNum rbuf s =
     emit_all (output_Write (fst (open_output cfg chNum s)))
       (map (sample_value (valueScaler (channel_scale cfg hdr chNum)) (channel_offset cfg hdr chNum))
          (kept (nat (decimate cfg - 1))
             (take (unat (Points spec) - start_index impl cfg spec)
                (drop (start_index impl cfg spec) rbuf))))
       (drop (unat (Points spec)) rbuf) (snd (open_output cfg chNum s))"
proof -
  let ?P = "unat (Points spec)"
  let ?i = "start_index impl cfg spec"
  have "?P < 2 ^ 32" using unsigned_less[of "Points spec"] by simp
  then have i63: "?i < 2 ^ 63" using sp by simp
  have sd: "start_discard impl cfg spec rbuf = Inr (?i, drop ?i rbuf)"
    using sp len i63 by (intro start_discard_ok) simp_all
  have sk: "decimateSkip (decimate cfg) = nat (decimate cfg - 1)"
    using d by (rule decimateSkip_eq)
  have sk63: "nat (decimate cfg - 1) < 2 ^ 63" using d by simp
  have dd: "drop (?P - ?i) (drop ?i rbuf) = drop ?P rbuf" using sp by simp
  have loop: "sample_loop wr ?P (nat (decimate cfg - 1)) vs off ?i (drop ?i rbuf) s1 =
      emit_all wr (map (sample_value vs off) (kept (nat (decimate cfg - 1))
          (take (?P - ?i) (drop ?i rbuf)))) (drop ?P rbuf) s1" for wr vs off s1
    using sample_loop_emit[OF sp _ sk63, of "drop ?i rbuf" wr vs off s1] len dd by simp
  show ?thesis
    by (simp add: convert_channel_def Let_def sd sk loop pass_result_same split: prod.splits)
qed


lemma emit_all_Finished_rest: "emit_all wr vals rest s = Finished s' r \<Longrightarrow> r = rest"
  by (induction vals arbitrary: s) (auto split: prod.splits option.splits)

lemma emit_all_not_Stopped: "emit_all wr vals rest s \<noteq> Stopped m s'"
  by (induction vals arbitrary: s) (auto split: prod.splits option.splits)

lemma emit_all_sr:
  "writing E0 idx nm c ws (srz s) \<Longrightarrow>
   \<exists>s'. emit_all (output_Write (SrValueWriter c)) vals rest s = Finished s' rest \<and>
        writing E0 idx nm c (ws @ vals) (srz s')"
proof (induction vals arbitrary: ws s)
  case Nil
  then show ?case by simp
next
  case (Cons v vals)
  from Write_writing[OF Cons.prems, of v]
  obtain sr1 where w: "Write c v (srz s) = (None, sr1)" and inv: "writing E0 idx nm c (ws @ [v]) sr1"
    by (cases "Write c v (srz s)") auto
  have "writing E0 idx nm c (ws @ [v]) (srz (s\<lparr>srz := sr1\<rparr>))" using inv by simp
  from Cons.IH[OF this] show ?case by (simp add: output_Write_def w)
qed

lemma kept_eval:
  "kept 2 [10, 11, 12, 13, 14, 15, 16, 17 :: byte] = [10, 13, 16, 17]"
  "kept (Suc 0) [10, 11, 12, 13, 14, 15 :: byte] = [10, 12, 14]"
  by (simp_all add: kept.simps)

text \<open>
  What the loop selects. With a decimation factor \<open>d \<ge> 1\<close>, started at index 0 with
  \<open>P\<close> bytes to read, the loop hands to the writer the values of the bytes that \<open>kept\<close>
  selects among the first \<open>P\<close>, in order, and leaves the reader \<open>P\<close> bytes further.
  After a sample at index \<open>i\<close> it skips \<open>d - 1\<close> bytes when \<open>i + (d - 1) < P\<close> and
  none otherwise, so \<open>P div d + P mod d\<close> values are written. (\<open>d < 2 ^ 63\<close> holds of
  every Go \<open>int\<close>.)
\<close>

lemma sample_loop_count:
  assumes "1 \<le> d" "d < 2 ^ 63" "P \<le> length rbuf"
  shows "sample_loop wr P (decimateSkip d) vs off 0 rbuf s =
           emit_all wr (map (sample_value vs off) (kept (nat (d - 1)) (take P rbuf))) (drop P rbuf) s \<and>
         length (kept (nat (d - 1)) (take P rbuf)) = P div nat d + P mod nat d"
proof -
  have sk: "decimateSkip d = nat (d - 1)" using assms(1,2) by (rule decimateSkip_eq)
  have "nat (d - 1) < 2 ^ 63" using assms(1,2) by simp
  then have "sample_loop wr P (nat (d - 1)) vs off 0 rbuf s =
      emit_all wr (map (sample_value vs off) (kept (nat (d - 1)) (take (P - 0) rbuf)))
        (drop (P - 0) rbuf) s"
    using assms(3) by (intro sample_loop_emit) simp_all
  moreover have "nat (d - 1) + 1 = nat d" using assms(1) by simp
  moreover have "length (take P rbuf) = P" using assms(3) by simp
  ultimately show ?thesis using length_kept[of "nat (d - 1)" "take P rbuf"] by (simp add: sk)
qed

text \<open>Factor 2 and six bytes: the samples at positions 0, 2 and 4.\<close>

lemma sample_loop_count_example:
  "(1::int) \<le> 2 \<and> (2::int) < 2 ^ 63 \<and> 6 \<le> length [10, 11, 12, 13, 14, 15 :: byte] \<and>
   sample_loop (output_Write FileValueWriter) 6 (decimateSkip 2) (valueScaler (Finite 1)) (Finite 0) 0
     [10, 11, 12, 13, 14, 15]
     \<lparr>rawfile = [], srz = NewSrZip \<lparr>entries = [], io_faults = [], closed = False, last_open = False\<rparr>\<rparr> =
   Finished
     \<lparr>rawfile = map (sample_value (valueScaler (Finite 1)) (Finite 0)) [10, 12, 14],
      srz = NewSrZip \<lparr>entries = [], io_faults = [], closed = False, last_open = False\<rparr>\<rparr> [] \<and>
   length [10, 12, 14 :: byte] = 6 div nat 2 + 6 mod nat 2"
  using sample_loop_count[of 2 6 "[10, 11, 12, 13, 14, 15]" "output_Write FileValueWriter"
      "valueScaler (Finite 1)" "Finite 0"
      "\<lparr>rawfile = [], srz = NewSrZip \<lparr>entries = [], io_faults = [], closed = False, last_open = False\<rparr>\<rparr>"]
  by (simp add: kept_eval output_Write_def)

text \<open>
  C2. The count is not the ceiling of \<open>P / d\<close>, and what the loop does at the end of a
  channel is not to skip the samples that remain: the guard of line 204 turns the
  decimation off there. For eight bytes and a factor of 3 the loop writes four values,
  those of the bytes at positions 0, 3, 6 and 7; one sample out of every three is three
  values, those at positions 0, 3 and 6, and the ceiling of 8 / 3 is 3. The sample rate
  recorded at line 139 is that of one sample out of every \<open>d\<close>.
\<close>

theorem decimation_tail_not_skipped:
  "sample_loop (output_Write FileValueWriter) 8 (decimateSkip 3) (valueScaler (Finite 1)) (Finite 0) 0
     [10, 11, 12, 13, 14, 15, 16, 17]
     \<lparr>rawfile = [], srz = NewSrZip \<lparr>entries = [], io_faults = [], closed = False, last_open = False\<rparr>\<rparr> =
   Finished
     \<lparr>rawfile = map (sample_value (valueScaler (Finite 1)) (Finite 0)) [10, 13, 16, 17],
      srz = NewSrZip \<lparr>entries = [], io_faults = [], closed = False, last_open = False\<rparr>\<rparr> [] \<and>
   length [10, 13, 16, 17 :: byte] \<noteq> (8 + 3 - 1) div 3"
proof -
  have "decimateSkip 3 = 2" by (simp add: decimateSkip_def)
  moreover have "sample_loop (output_Write FileValueWriter) 8 2 (valueScaler (Finite 1)) (Finite 0) 0
     [10, 11, 12, 13, 14, 15, 16, 17]
     \<lparr>rawfile = [], srz = NewSrZip \<lparr>entries = [], io_faults = [], closed = False, last_open = False\<rparr>\<rparr> =
     emit_all (output_Write FileValueWriter)
       (map (sample_value (valueScaler (Finite 1)) (Finite 0))
          (kept 2 (take (8 - 0) [10, 11, 12, 13, 14, 15, 16, 17]))) (drop (8 - 0) [10, 11, 12, 13, 14, 15, 16, 17])
       \<lparr>rawfile = [], srz = NewSrZip \<lparr>entries = [], io_faults = [], closed = False, last_open = False\<rparr>\<rparr>"
    by (intro sample_loop_emit) simp_all
  ultimately show ?thesis by (simp add: kept_eval output_Write_def)
qed

text \<open>
  C7. With the decimation factor 1 and no start offset the loop hands to the writer the
  value of every one of the \<open>P\<close> bytes, in order, none skipped, and leaves the reader
  \<open>P\<close> bytes further.
\<close>

theorem decimate_1_identity:
  assumes "P \<le> length rbuf"
  shows "sample_loop wr P (decimateSkip 1) vs off 0 rbuf s =
           emit_all wr (map (sample_value vs off) (take P rbuf)) (drop P rbuf) s"
proof -
  have "decimateSkip 1 = 0" by (simp add: decimateSkip_def)
  moreover have "sample_loop wr P 0 vs off 0 rbuf s =
      emit_all wr (map (sample_value vs off) (kept 0 (take (P - 0) rbuf))) (drop (P - 0) rbuf) s"
    using assms by (intro sample_loop_emit) simp_all
  ultimately show ?thesis by (simp add: kept_0)
qed

text \<open>Four bytes, all four emitted.\<close>

theorem decimate_1_identity_witness:
  "4 \<le> length [128, 138, 118, 128 :: byte] \<and>
   sample_loop (output_Write FileValueWriter) 4 (decimateSkip 1) (valueScaler (Finite 1)) (Finite 0) 0
     [128, 138, 118, 128]
     \<lparr>rawfile = [], srz = NewSrZip \<lparr>entries = [], io_faults = [], closed = False, last_open = False\<rparr>\<rparr> =
   Finished
     \<lparr>rawfile = map (sample_value (valueScaler (Finite 1)) (Finite 0)) [128, 138, 118, 128],
      srz = NewSrZip \<lparr>entries = [], io_faults = [], closed = False, last_open = False\<rparr>\<rparr> []"
  using decimate_1_identity[of 4 "[128, 138, 118, 128]" "output_Write FileValueWriter"
      "valueScaler (Finite 1)" "Finite 0"
      "\<lparr>rawfile = [], srz = NewSrZip \<lparr>entries = [], io_faults = [], closed = False, last_open = False\<rparr>\<rparr>"]
  by (simp add: output_Write_def)


lemma parts_at_limit:
  assumes "length vs = SamplesLimit"
  shows "parts idx vs = [(seg_name idx 1, map F32 vs), (seg_name idx 2, [])]"
proof -
  have "[0..<2] = [0, Suc 0]" by (simp add: upt_rec)
  then show ?thesis using assms SamplesLimit_pos
    by (simp add: parts_def seg_def) (simp add: numeral_2_eq_2)
qed

lemma parts_at_limit_Suc:
  assumes "length vs = SamplesLimit + 1"
  shows "parts idx vs = [(seg_name idx 1, map F32 (butlast vs)), (seg_name idx 2, [F32 (last vs)])]"
proof -
  have "[0..<2] = [0, Suc 0]" by (simp add: upt_rec)
  moreover have "(SamplesLimit + 1) div SamplesLimit = 1" by (simp add: SamplesLimit_def)
  moreover have "take SamplesLimit vs = butlast vs" using assms by (simp add: butlast_conv_take)
  moreover have "vs \<noteq> []" using assms by auto
  then have "drop SamplesLimit vs = [last vs]"
    using assms by (metis add_diff_cancel_right' append_butlast_last_id append_eq_conv_conj
        length_butlast)
  moreover have "take SamplesLimit [x] = [x]" for x :: float32
    using SamplesLimit_pos by (cases SamplesLimit) simp_all
  ultimately show ?thesis using assms
    by (simp add: parts_def seg_def) (simp add: numeral_2_eq_2)
qed

text \<open>
  C3, as amended. On an archive without faults, after a channel is created and the samples
  \<open>vs\<close> are written to it, no write has failed and the archive has gained exactly the
  entries \<open>parts\<close>: part \<open>k + 1\<close> holds the samples from \<open>k * SamplesLimit\<close> on, and
  there are \<open>length vs div SamplesLimit + 1\<close> of them, numbered from 1. A new part is
  opened when the counter, after the increment, is a multiple of \<open>SamplesLimit\<close>: so
  \<open>SamplesLimit\<close> samples give two entries, the second empty, and one sample more gives
  two entries, the second with that one sample.
\<close>

theorem segment_rollover:
  assumes "io_faults (zipFile sr) = []" "\<not> closed (zipFile sr)"
    and "NewAnalogChannel nm sr = (c, sr1)"
  shows "fst (writes c vs sr1) = None \<and>
         entries (zipFile (snd (writes c vs sr1))) =
           entries (zipFile sr) @ parts (length (channels sr) + 1) vs \<and>
         (length vs = SamplesLimit \<longrightarrow>
            parts (length (channels sr) + 1) vs =
              [(seg_name (length (channels sr) + 1) 1, map F32 vs),
               (seg_name (length (channels sr) + 1) 2, [])]) \<and>
         (length vs = SamplesLimit + 1 \<longrightarrow>
            parts (length (channels sr) + 1) vs =
              [(seg_name (length (channels sr) + 1) 1, map F32 (butlast vs)),
               (seg_name (length (channels sr) + 1) 2, [F32 (last vs)])])"
proof -
  from NewAnalogChannel_writing[OF assms(1,2), of nm] assms(3)
  have "writing (entries (zipFile sr)) (length (channels sr) + 1) nm c [] sr1" by simp
  from writes_writing[OF this, of vs] show ?thesis
    by (simp add: writing_def parts_at_limit parts_at_limit_Suc)
qed

lemma dec_eval:
  "dec (Suc 0) = ''1''" "dec 1 = ''1''" "dec 2 = ''2''" "dec 3 = ''3''" "dec 4 = ''4''"
  by code_simp+

lemma NewAnalogChannel_eval:
  "NewAnalogChannel ''Ch 1'' (NewSrZip \<lparr>entries = [], io_faults = [], closed = False, last_open = False\<rparr>) =
     (0, \<lparr>zipFile = \<lparr>entries = [(''analog-1-1-1'', [])], io_faults = [], closed = False, last_open = True\<rparr>,
          channels = [\<lparr>c_samples = 0, c_part = 1, c_w = Some 0, c_channel = 1, c_name = ''Ch 1''\<rparr>],
          SampleRate = 0\<rparr>)"
  by (simp add: NewAnalogChannel_def NewSrZip_def update_def Create_def Let_def part_name_def dec_eval)

text \<open>The first channel of a new archive, \<open>SamplesLimit + 1\<close> samples.\<close>

theorem segment_rollover_witness:
  "io_faults (zipFile (NewSrZip \<lparr>entries = [], io_faults = [], closed = False, last_open = False\<rparr>)) = [] \<and>
   \<not> closed (zipFile (NewSrZip \<lparr>entries = [], io_faults = [], closed = False, last_open = False\<rparr>)) \<and>
   NewAnalogChannel ''Ch 1'' (NewSrZip \<lparr>entries = [], io_faults = [], closed = False, last_open = False\<rparr>) =
     (0, \<lparr>zipFile = \<lparr>entries = [(''analog-1-1-1'', [])], io_faults = [], closed = False, last_open = True\<rparr>,
          channels = [\<lparr>c_samples = 0, c_part = 1, c_w = Some 0, c_channel = 1, c_name = ''Ch 1''\<rparr>],
          SampleRate = 0\<rparr>) \<and>
   length (replicate SamplesLimit (Finite 0) @ [Finite 1]) = SamplesLimit + 1 \<and>
   entries (zipFile (snd (writes 0 (replicate SamplesLimit (Finite 0) @ [Finite 1])
     \<lparr>zipFile = \<lparr>entries = [(''analog-1-1-1'', [])], io_faults = [], closed = False, last_open = True\<rparr>,
      channels = [\<lparr>c_samples = 0, c_part = 1, c_w = Some 0, c_channel = 1, c_name = ''Ch 1''\<rparr>],
      SampleRate = 0\<rparr>))) =
     [(''analog-1-1-1'', replicate SamplesLimit (F32 (Finite 0))), (''analog-1-1-2'', [F32 (Finite 1)])]"
  using segment_rollover[of "NewSrZip \<lparr>entries = [], io_faults = [], closed = False, last_open = False\<rparr>" "''Ch 1''" 0
      "\<lparr>zipFile = \<lparr>entries = [(''analog-1-1-1'', [])], io_faults = [], closed = False, last_open = True\<rparr>,
        channels = [\<lparr>c_samples = 0, c_part = 1, c_w = Some 0, c_channel = 1, c_name = ''Ch 1''\<rparr>],
        SampleRate = 0\<rparr>" "replicate SamplesLimit (Finite 0) @ [Finite 1]"]
    NewAnalogChannel_eval
  by (simp add: NewSrZip_def seg_name_def dec_eval)

text \<open>
  C3 as stated fails: after exactly \<open>SamplesLimit\<close> samples the archive has two entries
  for the channel, not one, the second one empty.
\<close>

theorem one_segment_at_limit_counterexample:
  "length (entries (zipFile (snd (writes 0 (replicate SamplesLimit (Finite 0))
     (snd (NewAnalogChannel ''Ch 1'' (NewSrZip \<lparr>entries = [], io_faults = [], closed = False, last_open = False\<rparr>))))))) = 2 \<and>
   snd (last (entries (zipFile (snd (writes 0 (replicate SamplesLimit (Finite 0))
     (snd (NewAnalogChannel ''Ch 1'' (NewSrZip \<lparr>entries = [], io_faults = [], closed = False, last_open = False\<rparr>)))))))) = []"
proof -
  let ?sr = "NewSrZip \<lparr>entries = [], io_faults = [], closed = False, last_open = False\<rparr>"
  have "writing (entries (zipFile ?sr)) (length (channels ?sr) + 1) ''Ch 1'' (length (channels ?sr)) []
          (snd (NewAnalogChannel ''Ch 1'' ?sr))"
    using NewAnalogChannel_writing[of ?sr "''Ch 1''"] by (simp add: NewSrZip_def)
  then have "writing [] 1 ''Ch 1'' 0 [] (snd (NewAnalogChannel ''Ch 1'' ?sr))"
    by (simp add: NewSrZip_def)
  from writes_writing[OF this, of "replicate SamplesLimit (Finite 0)"]
  have "entries (zipFile (snd (writes 0 (replicate SamplesLimit (Finite 0))
          (snd (NewAnalogChannel ''Ch 1'' ?sr))))) = parts 1 (replicate SamplesLimit (Finite 0))"
    by (simp add: writing_def)
  then show ?thesis by (simp add: parts_at_limit)
qed

lemma open_output_raw: "writeRaw cfg \<Longrightarrow> open_output cfg chNum s = (FileValueWriter, s)"
  by (simp add: open_output_def)

lemma open_output_sr:
  assumes "\<not> writeRaw cfg" "io_faults (zipFile (srz s)) = []" "\<not> closed (zipFile (srz s))"
  shows "fst (open_output cfg chNum s) = SrValueWriter (length (channels (srz s))) \<and>
         writing (entries (zipFile (srz s))) (length (channels (srz s)) + 1) (''Ch '' @ dec chNum)
           (length (channels (srz s))) [] (srz (snd (open_output cfg chNum s)))"
  using assms(1) NewAnalogChannel_writing[OF assms(2,3), of "''Ch '' @ dec chNum"]
  by (auto simp: open_output_def split: prod.splits)

text \<open>
  C9. Whatever the decimation factor \<open>d \<ge> 1\<close>, when the start index is at most the point
  count \<open>P\<close> and \<open>P\<close> bytes are there, the pass over one channel takes exactly \<open>P\<close>
  bytes from the shared reader, discards included: if it finishes, the reader it leaves
  is the one it got less its first \<open>P\<close> bytes, which is where the next channel starts.
  It never stops at the start offset, and it does finish in raw mode and on an archive
  without faults; the only other outcome is a fault of the writer.
\<close>

theorem channel_pass_consumes_points:
  assumes "1 \<le> decimate cfg" "decimate cfg < 2 ^ 63"
    and "start_index impl cfg spec \<le> unat (Points spec)"
    and "unat (Points spec) \<le> length rbuf"
  shows "(\<forall>s' r'. convert_channel impl cfg hdr spec chNum rbuf s = Finished s' r' \<longrightarrow>
            r' = drop (unat (Points spec)) rbuf) \<and>
         (\<forall>m s'. convert_channel impl cfg hdr spec chNum rbuf s \<noteq> Stopped m s') \<and>
         (writeRaw cfg \<or> io_faults (zipFile (srz s)) = [] \<and> \<not> closed (zipFile (srz s)) \<longrightarrow>
            (\<exists>s'. convert_channel impl cfg hdr spec chNum rbuf s =
                    Finished s' (drop (unat (Points spec)) rbuf)))"
proof -
  let ?vals = "map (sample_value (valueScaler (channel_scale cfg hdr chNum)) (channel_offset cfg hdr chNum))
          (kept (nat (decimate cfg - 1))
             (take (unat (Points spec) - start_index impl cfg spec)
                (drop (start_index impl cfg spec) rbuf)))"
  let ?rest = "drop (unat (Points spec)) rbuf"
  have eq: "convert_channel impl cfg hdr spec chNum rbuf s =
      emit_all (output_Write (fst (open_output cfg chNum s))) ?vals ?rest (snd (open_output cfg chNum s))"
    using assms by (rule convert_channel_emit)
  have fin: "\<exists>s'. convert_channel impl cfg hdr spec chNum rbuf s = Finished s' ?rest"
    if "writeRaw cfg \<or> io_faults (zipFile (srz s)) = [] \<and> \<not> closed (zipFile (srz s))"
  proof (cases "writeRaw cfg")
    case True
    then show ?thesis by (simp add: eq open_output_raw emit_all_raw)
  next
    case False
    with that have nf: "io_faults (zipFile (srz s)) = []" "\<not> closed (zipFile (srz s))" by auto
    from open_output_sr[OF False nf, of chNum]
    have o: "fst (open_output cfg chNum s) = SrValueWriter (length (channels (srz s)))"
      and w: "writing (entries (zipFile (srz s))) (length (channels (srz s)) + 1) (''Ch '' @ dec chNum)
           (length (channels (srz s))) [] (srz (snd (open_output cfg chNum s)))"
      by simp_all
    from emit_all_sr[OF w, of ?vals ?rest] show ?thesis by (auto simp: eq o)
  qed
  show ?thesis
    using fin by (auto simp: eq emit_all_not_Stopped dest: emit_all_Finished_rest)
qed

lemma start_eval: "fdiv (fmul (Finite 1) (Finite 2000)) (const64 1000) = Finite 2"
  by code_simp

text \<open>
  A start offset of 1 ms at 2000 samples per second (2 bytes), factor 2, six points and
  eight bytes in the reader: the last two are left for the next channel.
\<close>

theorem channel_pass_consumes_points_witness:
  "(1::int) \<le> decimate \<lparr>use_10x = False, writeRaw = True, applyOffset = True,
                          startOffset = Finite 1, decimate = 2\<rparr> \<and>
   decimate \<lparr>use_10x = False, writeRaw = True, applyOffset = True,
             startOffset = Finite 1, decimate = 2\<rparr> < 2 ^ 63 \<and>
   start_index (\<lambda>f. 0) \<lparr>use_10x = False, writeRaw = True, applyOffset = True,
                 startOffset = Finite 1, decimate = 2\<rparr>
      \<lparr>Points = 6, spec_SampleRate = Finite 2000\<rparr> = 2 \<and>
   unat (Points \<lparr>Points = 6, spec_SampleRate = Finite 2000\<rparr>) = 6 \<and>
   (\<exists>s'. convert_channel (\<lambda>f. 0)
           \<lparr>use_10x = False, writeRaw = True, applyOffset = True,
              startOffset = Finite 1, decimate = 2\<rparr>
           \<lparr>Scales = (\<lambda>n. Finite 1), Offsets = (\<lambda>n. Finite 0)\<rparr>
           \<lparr>Points = 6, spec_SampleRate = Finite 2000\<rparr> 1 [10, 11, 12, 13, 14, 15, 16, 17]
           \<lparr>rawfile = [], srz = NewSrZip \<lparr>entries = [], io_faults = [], closed = False, last_open = False\<rparr>\<rparr> =
         Finished s' [16, 17])"
proof -
  have si: "start_index (\<lambda>f. 0) \<lparr>use_10x = False, writeRaw = True, applyOffset = True,
                 startOffset = Finite 1, decimate = 2\<rparr>
      \<lparr>Points = 6, spec_SampleRate = Finite 2000\<rparr> = 2"
    by (simp add: start_index_def startPoint_def start_eval uint_of_float64_def
          del: fmul.simps fdiv.simps)
  show ?thesis
    using channel_pass_consumes_points[of
        "\<lparr>use_10x = False, writeRaw = True, applyOffset = True, startOffset = Finite 1, decimate = 2\<rparr>"
        "\<lambda>f. 0" "\<lparr>Points = 6, spec_SampleRate = Finite 2000\<rparr>" "[10, 11, 12, 13, 14, 15, 16, 17]"
        "\<lparr>Scales = (\<lambda>n. Finite 1), Offsets = (\<lambda>n. Finite 0)\<rparr>" 1
        "\<lparr>rawfile = [], srz = NewSrZip \<lparr>entries = [], io_faults = [], closed = False, last_open = False\<rparr>\<rparr>"]
    by (simp add: si)
qed

section \<open>The archive along a run\<close>

lemma part_name_prefix: "take 9 (part_name ch) = ''analog-1-''"
  by (simp add: part_name_def)

lemma Create_inv:
  assumes "\<not> closed z"
  shows "\<not> closed (snd (Create z nm)) \<and>
         (entries (snd (Create z nm)) = entries z \<or>
          entries (snd (Create z nm)) = entries z @ [(nm, [])]) \<and>
         (io_faults z = [] \<longrightarrow> io_faults (snd (Create z nm)) = [])"
  using assms by (auto simp: Create_def split: list.splits bool.splits)

lemma update_inv:
  assumes "sr_inv nf r sr"
  shows "sr_inv nf r (snd (update c sr))"
proof (cases "c_samples (channels sr ! c) mod SamplesLimit = 0")
  case False
  then show ?thesis using assms by (simp add: update_def Let_def)
next
  case True
  let ?ch1 = "(channels sr ! c)\<lparr>c_part := c_part (channels sr ! c) + 1\<rparr>"
  from assms have nc: "\<not> closed (zipFile sr)" by (simp add: sr_inv_def)
  from Create_inv[OF nc, of "part_name ?ch1"] assms
  have "sr_inv nf r (sr\<lparr>zipFile := snd (Create (zipFile sr) (part_name ?ch1)), channels := chs\<rparr>)" for chs
    by (auto simp: sr_inv_def part_name_prefix split: if_splits)
  then show ?thesis using True
    by (auto simp: update_def Let_def split: prod.splits sum.splits)
qed

lemma entry_Write_inv:
  assumes "sr_inv nf r sr"
  shows "sr_inv nf r (sr\<lparr>zipFile := snd (entry_Write (zipFile sr) k c), channels := chs\<rparr>)"
proof (cases "\<not> closed (zipFile sr) \<and> Suc k = length (entries (zipFile sr))")
  case False
  then show ?thesis using assms by (auto simp: entry_Write_def sr_inv_def)
next
  case True
  then have k: "k < length (entries (zipFile sr))" by simp
  have "list_all P (xs[k := (fst (xs ! k), d)])"
    if "list_all P xs" "k < length xs" "\<And>e d. P e \<Longrightarrow> P (fst e, d)" for P and xs :: "(string \<times> chunk list) list" and d
    using that by (auto simp: list_all_length nth_list_update)
  then show ?thesis using True assms k by (simp add: entry_Write_def sr_inv_def)
qed

lemma Write_inv: "sr_inv nf r sr \<Longrightarrow> sr_inv nf r (snd (Write c v sr))"
  by (auto simp: Write_def Let_def intro: update_inv entry_Write_inv split: option.splits)

lemma NewAnalogChannel_inv: "sr_inv nf r sr \<Longrightarrow> sr_inv nf r (snd (NewAnalogChannel nm sr))"
proof -
  assume a: "sr_inv nf r sr"
  have "sr_inv nf r (sr\<lparr>channels := chs\<rparr>)" for chs using a by (simp add: sr_inv_def)
  then show ?thesis by (simp add: NewAnalogChannel_def Let_def update_inv)
qed

lemma output_Write_inv:
  assumes "sr_inv nf r (srz s)"
  shows "sr_inv nf r (srz (snd (output_Write out s v)))"
proof (cases out)
  case FileValueWriter
  then show ?thesis using assms by (simp add: output_Write_def)
next
  case (SrValueWriter c)
  from Write_inv[OF assms, of c v] show ?thesis
    using SrValueWriter by (auto simp: output_Write_def split: prod.splits)
qed

lemma open_output_inv: "sr_inv nf r (srz s) \<Longrightarrow> sr_inv nf r (srz (snd (open_output cfg chNum s)))"
  using NewAnalogChannel_inv[of nf r "srz s" "''Ch '' @ dec chNum"]
  by (auto simp: open_output_def split: prod.splits)

lemma sample_loop_inv:
  assumes "\<And>s v. I s \<Longrightarrow> I (snd (wr s v))"
  shows "I s \<Longrightarrow> I (result_state (sample_loop wr P skip vs off i rbuf s))"
proof (induction "P - i" arbitrary: i rbuf s rule: less_induct)
  case less
  show ?case
  proof (cases "i < P")
    case False
    then show ?thesis using less.prems by (simp add: sample_loop.simps)
  next
    case True
    show ?thesis
    proof (cases rbuf)
      case Nil
      then show ?thesis using True less.prems
        by (subst sample_loop.simps) (simp add: ReadByte_def)
    next
      case (Cons v r1)
      let ?step = "if 0 < skip \<and> i + skip < P
                   then (case Discard (int_of_uint skip) r1 of
                           Inl e \<Rightarrow> Inl e | Inr r2 \<Rightarrow> Inr (i + skip, r2))
                   else Inr (i, r1)"
      show ?thesis
      proof (cases ?step)
        case (Inl e)
        then show ?thesis using True less.prems Cons
          by (subst sample_loop.simps) (simp add: ReadByte_def)
      next
        case (Inr p)
        obtain i1 r2 where p: "p = (i1, r2)" by (cases p)
        have i1: "i \<le> i1" using Inr p by (auto split: if_splits sum.splits)
        obtain e s1 where w: "wr s (sample_value vs off v) = (e, s1)"
          by (cases "wr s (sample_value vs off v)")
        have Is1: "I s1" using assms[OF less.prems, of "sample_value vs off v"] w by simp
        have rec: "I (result_state (sample_loop wr P skip vs off (i1 + 1) r2 s1))"
          using i1 True Is1 by (intro less.hyps) auto
        show ?thesis using True Cons Inr p w Is1 rec
          by (subst sample_loop.simps) (simp add: ReadByte_def split: option.splits)
      qed
    qed
  qed
qed


lemma result_state_same:
  "result_state (case r of Finished s2 r2 \<Rightarrow> (case output_Close out s2 of (Some e, s3) \<Rightarrow> Faulted e s3
                                    | (None, s3) \<Rightarrow> Finished s3 r2)
            | Faulted e s2 \<Rightarrow> Faulted e s2 | Stopped msg s2 \<Rightarrow> Stopped msg s2) = result_state r"
  by (simp add: pass_result_same)

lemma convert_channel_inv:
  assumes "sr_inv nf r (srz s)"
  shows "sr_inv nf r (srz (result_state (convert_channel impl cfg hdr spec chNum rbuf s)))"
proof -
  obtain out s1 where o: "open_output cfg chNum s = (out, s1)" by (cases "open_output cfg chNum s")
  have s1: "sr_inv nf r (srz s1)" using open_output_inv[OF assms, of cfg chNum] o by simp
  have loop: "sr_inv nf r (srz (result_state (sample_loop (output_Write out) P skip vs off i r1 s1)))"
    for P skip vs off i r1
    by (rule sample_loop_inv[where I = "\<lambda>s. sr_inv nf r (srz s)"]) (simp_all add: output_Write_inv s1)
  show ?thesis
    using s1 loop
    by (simp add: convert_channel_def Let_def o result_state_same split: sum.splits prod.splits)
qed

lemma run_channels_inv:
  "sr_inv nf r (srz s) \<Longrightarrow>
   sr_inv nf r (srz (result_state (run_channels impl cfg hdr spec chs rbuf s)))"
proof (induction chs arbitrary: rbuf s)
  case Nil
  then show ?case by simp
next
  case (Cons chNum rest)
  from convert_channel_inv[OF Cons.prems, of impl cfg hdr spec chNum rbuf]
  show ?case using Cons.prems Cons.IH
    by (cases "convert_channel impl cfg hdr spec chNum rbuf s") auto
qed

lemma createFile_ok:
  assumes "io_faults (zipFile sr) = []" "\<not> closed (zipFile sr)"
  shows "createFile nm txt sr =
     (None, sr\<lparr>zipFile := (zipFile sr)\<lparr>entries := entries (zipFile sr) @ [(nm, [Txt txt])],
                                         last_open := True\<rparr>\<rparr>)"
  using assms by (simp add: createFile_def Create_ok entry_Write_def nth_append)

lemma Close_ok:
  assumes "io_faults (zipFile sr) = []" "\<not> closed (zipFile sr)"
  shows "Close sr = (None, sr\<lparr>zipFile := (zipFile sr)\<lparr>entries := entries (zipFile sr) @
                        [(''version'', [Txt (''2'' @ nl)]), (''metadata'', [Txt (metadata sr)])],
            closed := True, last_open := False\<rparr>\<rparr>)"
  using assms by (simp add: Close_def createFile_ok zip_Close_def)

lemma createFile_cases:
  assumes "\<not> closed (zipFile sr)"
  shows "\<not> closed (zipFile (snd (createFile nm txt sr))) \<and>
         (fst (createFile nm txt sr) \<noteq> None \<and>
            entries (zipFile (snd (createFile nm txt sr))) = entries (zipFile sr) \<or>
          fst (createFile nm txt sr) = None \<and>
            entries (zipFile (snd (createFile nm txt sr))) = entries (zipFile sr) @ [(nm, [Txt txt])])"
proof (cases "io_faults (zipFile sr)")
  case Nil
  then show ?thesis using assms by (simp add: createFile_ok)
next
  case (Cons f fs)
  then show ?thesis using assms
    by (cases f) (simp_all add: createFile_def Create_def entry_Write_def nth_append)
qed

lemma Close_tail:
  assumes "\<not> closed (zipFile sr)"
  shows "\<exists>T. map fst (entries (zipFile (snd (Close sr)))) = map fst (entries (zipFile sr)) @ T \<and>
             T \<in> {[], [''version''], [''version'', ''metadata'']}"
proof -
  obtain e1 sr1 where c1: "createFile ''version'' (''2'' @ nl) sr = (e1, sr1)"
    by (cases "createFile ''version'' (''2'' @ nl) sr")
  from createFile_cases[OF assms, of "''version''" "''2'' @ nl"] c1
  have nc1: "\<not> closed (zipFile sr1)"
    and d1: "e1 \<noteq> None \<and> entries (zipFile sr1) = entries (zipFile sr) \<or>
             e1 = None \<and> entries (zipFile sr1) = entries (zipFile sr) @ [(''version'', [Txt (''2'' @ nl)])]"
    by simp_all
  show ?thesis
  proof (cases e1)
    case (Some e)
    then show ?thesis using d1 c1 by (simp add: Close_def)
  next
    case None
    obtain e2 sr2 where c2: "createFile ''metadata'' (metadata sr) sr1 = (e2, sr2)"
      by (cases "createFile ''metadata'' (metadata sr) sr1")
    from createFile_cases[OF nc1, of "''metadata''" "metadata sr"] c2
    have d2: "e2 \<noteq> None \<and> entries (zipFile sr2) = entries (zipFile sr1) \<or>
             e2 = None \<and> entries (zipFile sr2) = entries (zipFile sr1) @ [(''metadata'', [Txt (metadata sr)])]"
      by simp
    show ?thesis
    proof (cases e2)
      case (Some e)
      then show ?thesis using None d1 d2 c1 c2 by (simp add: Close_def)
    next
      case n2: None
      then show ?thesis using None d1 d2 c1 c2
        by (simp add: Close_def zip_Close_def split: prod.splits)
    qed
  qed
qed

lemma main_archive:
  assumes "\<not> writeRaw cfg" "1 \<le> decimate cfg"
  shows "\<exists>ex raw. main impl cfg hdr spec data z0 =
      (ex, raw, Some (snd (Close (srz (result_state
         (run_channels impl cfg hdr spec [1, 2, 3, 4] data
            \<lparr>rawfile = [], srz = (NewSrZip z0)\<lparr>SampleRate :=
                uint_of_float64 impl (fdiv (spec_SampleRate spec) (float64_of_int (decimate cfg)))\<rparr>\<rparr>))))))"
  using assms
  by (auto simp: main_def Let_def split: pass_result.splits prod.splits)


text \<open>
  \<open>Create\<close> does not refuse a closed archive, so the order of the entries is the order
  of the calls: finalizing twice writes \<open>version\<close> and \<open>metadata\<close> twice, and only the
  second \<open>Close\<close> of the \<open>zip.Writer\<close> reports it.
\<close>

lemma Close_again:
  "map fst (entries (zipFile (snd (Close (snd (Close
     (NewSrZip \<lparr>entries = [], io_faults = [], closed = False, last_open = False\<rparr>))))))) =
   [''version'', ''metadata'', ''version'', ''metadata''] \<and>
   fst (Close (snd (Close
     (NewSrZip \<lparr>entries = [], io_faults = [], closed = False, last_open = False\<rparr>)))) =
   Some (Err ''zip: writer closed twice'')"
  by (simp add: Close_def createFile_def Create_def entry_Write_def zip_Close_def NewSrZip_def)

text \<open>
  C6, as amended. In a run that writes an archive (not the raw file), started on the new,
  empty archive, \<open>main\<close> finalizes once, when it returns: the entries of the archive at
  the end of the run are the segments of the channels followed by \<open>T\<close>, and \<open>T\<close> is
  empty, \<open>version\<close>, or \<open>version\<close> then \<open>metadata\<close>. So the two entries are written
  after all the data of all channels, never before or between, \<open>version\<close> first, each
  at most once; and each exactly once when no creation of an entry fails.
\<close>

theorem version_metadata_last:
  assumes "\<not> writeRaw cfg" "1 \<le> decimate cfg" "entries z0 = []" "\<not> closed z0"
  shows "\<exists>ex raw sr E T. main impl cfg hdr spec data z0 = (ex, raw, Some sr) \<and>
           map fst (entries (zipFile sr)) = E @ T \<and>
           list_all (\<lambda>n. take 9 n = ''analog-1-'') E \<and>
           T \<in> {[], [''version''], [''version'', ''metadata'']} \<and>
           (io_faults z0 = [] \<longrightarrow> T = [''version'', ''metadata''])"
proof -
  let ?R = "uint_of_float64 impl (fdiv (spec_SampleRate spec) (float64_of_int (decimate cfg)))"
  let ?s1 = "result_state (run_channels impl cfg hdr spec [1, 2, 3, 4] data
            \<lparr>rawfile = [], srz = (NewSrZip z0)\<lparr>SampleRate := ?R\<rparr>\<rparr>)"
  let ?E = "map fst (entries (zipFile (srz ?s1)))"
  from main_archive[OF assms(1,2), of impl hdr spec data z0]
  obtain ex raw where m: "main impl cfg hdr spec data z0 = (ex, raw, Some (snd (Close (srz ?s1))))"
    by blast
  have "sr_inv (io_faults z0 = []) ?R (srz \<lparr>rawfile = [], srz = (NewSrZip z0)\<lparr>SampleRate := ?R\<rparr>\<rparr>)"
    using assms(3,4) by (simp add: sr_inv_def NewSrZip_def)
  from run_channels_inv[OF this, of impl cfg hdr spec "[1, 2, 3, 4]" data]
  have inv: "sr_inv (io_faults z0 = []) ?R (srz ?s1)" .
  then have nc: "\<not> closed (zipFile (srz ?s1))" by (simp add: sr_inv_def)
  have E: "list_all (\<lambda>n. take 9 n = ''analog-1-'') ?E"
    using inv by (simp add: sr_inv_def list_all_iff)
  from Close_tail[OF nc] obtain T where
    T: "map fst (entries (zipFile (snd (Close (srz ?s1))))) = ?E @ T"
       "T \<in> {[], [''version''], [''version'', ''metadata'']}"
    by blast
  have "T = [''version'', ''metadata'']" if "io_faults z0 = []"
  proof -
    from inv that have "io_faults (zipFile (srz ?s1)) = []" by (simp add: sr_inv_def)
    from Close_ok[OF this nc] T(1) show ?thesis by simp
  qed
  with m T E show ?thesis by blast
qed

text \<open>A run over one channel of two points.\<close>

theorem version_metadata_last_witness:
  "\<not> writeRaw \<lparr>use_10x = False, writeRaw = False, applyOffset = True,
               startOffset = Finite 0, decimate = 1\<rparr> \<and>
   1 \<le> decimate \<lparr>use_10x = False, writeRaw = False, applyOffset = True,
                  startOffset = Finite 0, decimate = 1\<rparr> \<and>
   entries \<lparr>entries = [], io_faults = [], closed = False, last_open = False\<rparr> = [] \<and>
   \<not> closed \<lparr>entries = [], io_faults = [], closed = False, last_open = False\<rparr> \<and>
   io_faults \<lparr>entries = [], io_faults = [], closed = False, last_open = False\<rparr> = [] \<and>
   (\<exists>ex raw sr E.
      main (\<lambda>f. 0) \<lparr>use_10x = False, writeRaw = False, applyOffset = True,
                      startOffset = Finite 0, decimate = 1\<rparr>
        \<lparr>Scales = (\<lambda>n. Finite 1), Offsets = (\<lambda>n. Finite 0)\<rparr>
        \<lparr>Points = 2, spec_SampleRate = Finite 1000\<rparr> [128, 138, 118, 128]
        \<lparr>entries = [], io_faults = [], closed = False, last_open = False\<rparr> = (ex, raw, Some sr) \<and>
      map fst (entries (zipFile sr)) = E @ [''version'', ''metadata''] \<and>
      list_all (\<lambda>n. take 9 n = ''analog-1-'') E)"
  using version_metadata_last[of
      "\<lparr>use_10x = False, writeRaw = False, applyOffset = True, startOffset = Finite 0, decimate = 1\<rparr>"
      "\<lparr>entries = [], io_faults = [], closed = False, last_open = False\<rparr>" "\<lambda>f. 0"
      "\<lparr>Scales = (\<lambda>n. Finite 1), Offsets = (\<lambda>n. Finite 0)\<rparr>"
      "\<lparr>Points = 2, spec_SampleRate = Finite 1000\<rparr>" "[128, 138, 118, 128]"]
  by auto

text \<open>
  C6 as stated fails when the creation of an entry fails. One channel of one point, the
  creation of \<open>version\<close> failing: \<open>Close\<close> returns the error at line 65, the deferred
  call at line 140 drops it, and the run completes with an archive that holds the
  segment of the channel and neither \<open>version\<close> nor \<open>metadata\<close>.
\<close>

theorem completed_without_version_counterexample:
  "fst (main (\<lambda>f. 0)
     \<lparr>use_10x = False, writeRaw = False, applyOffset = True, startOffset = Finite 0, decimate = 1\<rparr>
     \<lparr>Scales = (\<lambda>n. Finite 1), Offsets = (\<lambda>n. Finite 0)\<rparr>
     \<lparr>Points = 1, spec_SampleRate = Finite 1000\<rparr> [128]
     \<lparr>entries = [], io_faults = [False, True], closed = False, last_open = False\<rparr>) = Completed \<and>
   map_option (\<lambda>sr. map fst (entries (zipFile sr)))
     (snd (snd (main (\<lambda>f. 0)
       \<lparr>use_10x = False, writeRaw = False, applyOffset = True, startOffset = Finite 0, decimate = 1\<rparr>
       \<lparr>Scales = (\<lambda>n. Finite 1), Offsets = (\<lambda>n. Finite 0)\<rparr>
       \<lparr>Points = 1, spec_SampleRate = Finite 1000\<rparr> [128]
       \<lparr>entries = [], io_faults = [False, True], closed = False, last_open = False\<rparr>))) =
   Some [''analog-1-1-1'']"
  by (simp add: main_def Let_def NewSrZip_def convert_channel_def
        channel_scale_def channel_offset_def open_output_def NewAnalogChannel_def update_def
        Create_def part_name_def dec_eval start_discard_def decimateSkip_def sample_loop.simps
        ReadByte_def output_Write_def Write_def entry_Write_def output_Close_def SamplesLimit_def
        Close_def createFile_def
        del: fmul.simps fsub.simps fdiv.simps to_float32.simps)

text \<open>
  C10. The sample rate that the metadata entry records is the one set at line 139, the
  input sample rate divided by the decimation factor and converted to \<open>uint\<close>, not the
  sample rate of the capture.
\<close>

theorem recorded_samplerate:
  assumes "\<not> writeRaw cfg" "1 \<le> decimate cfg"
    and "entries z0 = []" "io_faults z0 = []" "\<not> closed z0"
  shows "\<exists>ex raw sr rest. main impl cfg hdr spec data z0 = (ex, raw, Some sr) \<and>
           SampleRate sr =
             uint_of_float64 impl (fdiv (spec_SampleRate spec) (float64_of_int (decimate cfg))) \<and>
           last (entries (zipFile sr)) =
             (''metadata'',
              [Txt (nl @ ''[device 1]'' @ nl @ ''samplerate='' @
                    dec (uint_of_float64 impl
                           (fdiv (spec_SampleRate spec) (float64_of_int (decimate cfg)))) @
                    nl @ rest)])"
proof -
  let ?R = "uint_of_float64 impl (fdiv (spec_SampleRate spec) (float64_of_int (decimate cfg)))"
  let ?s1 = "result_state (run_channels impl cfg hdr spec [1, 2, 3, 4] data
            \<lparr>rawfile = [], srz = (NewSrZip z0)\<lparr>SampleRate := ?R\<rparr>\<rparr>)"
  from main_archive[OF assms(1,2), of impl hdr spec data z0]
  obtain ex raw where m: "main impl cfg hdr spec data z0 = (ex, raw, Some (snd (Close (srz ?s1))))"
    by blast
  have "sr_inv True ?R (srz \<lparr>rawfile = [], srz = (NewSrZip z0)\<lparr>SampleRate := ?R\<rparr>\<rparr>)"
    using assms(3,4,5) by (simp add: sr_inv_def NewSrZip_def)
  from run_channels_inv[OF this, of impl cfg hdr spec "[1, 2, 3, 4]" data]
  have inv: "sr_inv True ?R (srz ?s1)" .
  then have nc: "\<not> closed (zipFile (srz ?s1))" and nf: "io_faults (zipFile (srz ?s1)) = []"
    and R: "SampleRate (srz ?s1) = ?R"
    by (simp_all add: sr_inv_def)
  from Close_ok[OF nf nc] m R show ?thesis
    by (simp add: metadata_def)
qed

lemma half_rate_eval: "fdiv (Finite 1000) (float64_of_int 2) = Finite 500"
  by code_simp

lemma dec_500: "dec 500 = ''500''"
  by code_simp

text \<open>A capture at 1000 samples per second decimated by 2 is recorded as 500.\<close>

theorem recorded_samplerate_witness:
  "\<not> writeRaw \<lparr>use_10x = False, writeRaw = False, applyOffset = True,
               startOffset = Finite 0, decimate = 2\<rparr> \<and>
   1 \<le> decimate \<lparr>use_10x = False, writeRaw = False, applyOffset = True,
                  startOffset = Finite 0, decimate = 2\<rparr> \<and>
   entries \<lparr>entries = [], io_faults = [], closed = False, last_open = False\<rparr> = [] \<and>
   io_faults \<lparr>entries = [], io_faults = [], closed = False, last_open = False\<rparr> = [] \<and>
   \<not> closed \<lparr>entries = [], io_faults = [], closed = False, last_open = False\<rparr> \<and>
   (\<exists>ex raw sr rest.
      main (\<lambda>f. 0) \<lparr>use_10x = False, writeRaw = False, applyOffset = True,
                      startOffset = Finite 0, decimate = 2\<rparr>
        \<lparr>Scales = (\<lambda>n. Finite 1), Offsets = (\<lambda>n. Finite 0)\<rparr>
        \<lparr>Points = 2, spec_SampleRate = Finite 1000\<rparr> [128, 138, 118, 128]
        \<lparr>entries = [], io_faults = [], closed = False, last_open = False\<rparr> = (ex, raw, Some sr) \<and>
      SampleRate sr = 500 \<and>
      last (entries (zipFile sr)) =
        (''metadata'', [Txt (nl @ ''[device 1]'' @ nl @ ''samplerate=500'' @ nl @ rest)]))"
proof -
  have u: "uint_of_float64 (\<lambda>f. 0) (fdiv (Finite 1000) (float64_of_int 2)) = 500"
    by (simp add: half_rate_eval uint_of_float64_def del: fdiv.simps)
  show ?thesis
    using recorded_samplerate[of
      "\<lparr>use_10x = False, writeRaw = False, applyOffset = True, startOffset = Finite 0, decimate = 2\<rparr>"
      "\<lparr>entries = [], io_faults = [], closed = False, last_open = False\<rparr>" "\<lambda>f. 0"
      "\<lparr>Scales = (\<lambda>n. Finite 1), Offsets = (\<lambda>n. Finite 0)\<rparr>"
      "\<lparr>Points = 2, spec_SampleRate = Finite 1000\<rparr>" "[128, 138, 118, 128]"]
    by (simp add: u dec_500 del: fdiv.simps)
qed

section \<open>The metadata\<close>

lemma map_update_same: "f y = f (xs ! c) \<Longrightarrow> map f (xs[c := y]) = map f xs"
  by (cases "c < length xs") (auto simp: list_eq_iff_nth_eq nth_list_update)

lemma update_labels:
  "labels (snd (update c sr)) = labels sr \<and> SampleRate (snd (update c sr)) = SampleRate sr"
  by (simp add: update_def Let_def labels_def map_update_same split: prod.splits sum.splits)

lemma Write_labels:
  "labels (snd (Write c v sr)) = labels sr \<and> SampleRate (snd (Write c v sr)) = SampleRate sr"
proof (cases "c_w (channels sr ! c)")
  case None
  then show ?thesis by (simp add: Write_def)
next
  case (Some k)
  let ?sr1 = "sr\<lparr>zipFile := snd (entry_Write (zipFile sr) k (F32 v)),
                  channels := (channels sr)[c := (channels sr ! c)\<lparr>c_samples := c_samples (channels sr ! c) + 1\<rparr>]\<rparr>"
  have "labels ?sr1 = labels sr" "SampleRate ?sr1 = SampleRate sr"
    by (simp_all add: labels_def map_update_same)
  then show ?thesis using Some update_labels[of c ?sr1] by (simp add: Write_def Let_def)
qed

lemma NewAnalogChannel_labels:
  "labels (snd (NewAnalogChannel nm sr)) = labels sr @ [(length (labels sr) + 1, nm)] \<and>
   SampleRate (snd (NewAnalogChannel nm sr)) = SampleRate sr"
proof -
  let ?ch = "\<lparr>c_samples = 0, c_part = 0, c_w = None, c_channel = length (channels sr) + 1, c_name = nm\<rparr>"
  let ?sr1 = "sr\<lparr>channels := channels sr @ [?ch]\<rparr>"
  have "labels ?sr1 = labels sr @ [(length (labels sr) + 1, nm)]" "SampleRate ?sr1 = SampleRate sr"
    by (simp_all add: labels_def)
  then show ?thesis using update_labels[of "length (channels sr)" ?sr1]
    by (simp add: NewAnalogChannel_def Let_def)
qed

lemma run_ops_labels:
  "labels (run_ops ops sr) = labels sr @ enumerate (length (labels sr) + 1) (created ops) \<and>
   SampleRate (run_ops ops sr) = SampleRate sr"
proof (induction ops arbitrary: sr)
  case Nil
  then show ?case by simp
next
  case (Cons op ops)
  show ?case
  proof (cases op)
    case (OpNew nm)
    then show ?thesis using Cons[of "snd (NewAnalogChannel nm sr)"]
      by (simp add: NewAnalogChannel_labels)
  next
    case (OpWrite c v)
    then show ?thesis using Cons[of "snd (Write c v sr)"] Cons[of sr]
      by (simp add: Write_labels)
  qed
qed

lemma metadata_labels:
  "metadata sr = nl @ ''[device 1]'' @ nl @ ''samplerate='' @ dec (SampleRate sr) @ nl @
     ''total analog='' @ dec (length (labels sr)) @ nl @ concat (map label_line (labels sr))"
proof -
  have "map channel_line (channels sr) = map label_line (labels sr)"
    by (simp add: labels_def channel_line_def label_line_def)
  moreover have "length (channels sr) = length (labels sr)" by (simp add: labels_def)
  ultimately show ?thesis unfolding metadata_def by simp
qed

lemma createFile_None:
  assumes "fst (createFile nm txt sr) = None"
  shows "entries (zipFile (snd (createFile nm txt sr))) = entries (zipFile sr) @ [(nm, [Txt txt])]"
proof (cases "Create (zipFile sr) nm")
  case (Pair res z)
  show ?thesis
  proof (cases res)
    case (Inl e)
    then show ?thesis using assms Pair by (simp add: createFile_def)
  next
    case (Inr k)
    then have "k = length (entries (zipFile sr)) \<and> last_open z \<and>
               entries z = entries (zipFile sr) @ [(nm, [])]"
      using Pair by (auto simp: Create_def split: list.splits bool.splits)
    then show ?thesis using Pair Inr by (simp add: createFile_def entry_Write_def nth_append)
  qed
qed

lemma Close_None:
  assumes "fst (Close sr) = None"
  shows "entries (zipFile (snd (Close sr))) =
           entries (zipFile sr) @ [(''version'', [Txt (''2'' @ nl)]), (''metadata'', [Txt (metadata sr)])]"
proof -
  obtain e1 sr1 where c1: "createFile ''version'' (''2'' @ nl) sr = (e1, sr1)"
    by (cases "createFile ''version'' (''2'' @ nl) sr")
  obtain e2 sr2 where c2: "createFile ''metadata'' (metadata sr) sr1 = (e2, sr2)"
    by (cases "createFile ''metadata'' (metadata sr) sr1")
  from assms c1 have e1: "e1 = None" by (cases e1) (simp_all add: Close_def)
  from assms c1 c2 e1 have e2: "e2 = None" by (cases e2) (simp_all add: Close_def)
  from createFile_None[of "''version''" "''2'' @ nl" sr] c1 e1
  have "entries (zipFile sr1) = entries (zipFile sr) @ [(''version'', [Txt (''2'' @ nl)])]" by simp
  moreover from createFile_None[of "''metadata''" "metadata sr" sr1] c2 e2
  have "entries (zipFile sr2) = entries (zipFile sr1) @ [(''metadata'', [Txt (metadata sr)])]" by simp
  ultimately show ?thesis using c1 c2 e1 e2
    by (simp add: Close_def zip_Close_def split: prod.splits)
qed

lemma run_ops_inv: "sr_inv nf r sr \<Longrightarrow> sr_inv nf r (run_ops ops sr)"
proof (induction ops arbitrary: sr)
  case Nil
  then show ?case by simp
next
  case (Cons op ops)
  then show ?case by (cases op) (simp_all add: NewAnalogChannel_inv Write_inv)
qed

text \<open>
  C5. After any sequence of channel creations and writes on a new \<open>SrZip\<close> with sample
  rate \<open>r\<close>, the metadata text gives the sample rate, the number of channels created and
  then one line for each channel created, in the order of creation, the \<open>n\<close>-th one
  with index \<open>n\<close> and its name. When \<open>Close\<close> succeeds, that text is the content of
  the \<open>metadata\<close> entry, the last entry of the archive, after \<open>version\<close>.
\<close>

theorem metadata_lists_channels:
  "metadata (run_ops ops ((NewSrZip z)\<lparr>SampleRate := r\<rparr>)) =
     nl @ ''[device 1]'' @ nl @ ''samplerate='' @ dec r @ nl @
     ''total analog='' @ dec (length (created ops)) @ nl @
     concat (map label_line (enumerate 1 (created ops))) \<and>
   (fst (Close (run_ops ops ((NewSrZip z)\<lparr>SampleRate := r\<rparr>))) = None \<longrightarrow>
      entries (zipFile (snd (Close (run_ops ops ((NewSrZip z)\<lparr>SampleRate := r\<rparr>))))) =
        entries (zipFile (run_ops ops ((NewSrZip z)\<lparr>SampleRate := r\<rparr>))) @
        [(''version'', [Txt (''2'' @ nl)]),
         (''metadata'', [Txt (metadata (run_ops ops ((NewSrZip z)\<lparr>SampleRate := r\<rparr>)))])])"
proof -
  have "labels ((NewSrZip z)\<lparr>SampleRate := r\<rparr>) = []" by (simp add: labels_def NewSrZip_def)
  then have "labels (run_ops ops ((NewSrZip z)\<lparr>SampleRate := r\<rparr>)) = enumerate 1 (created ops)"
    and "SampleRate (run_ops ops ((NewSrZip z)\<lparr>SampleRate := r\<rparr>)) = r"
    using run_ops_labels[of ops "(NewSrZip z)\<lparr>SampleRate := r\<rparr>"] by simp_all
  then show ?thesis by (simp add: metadata_labels Close_None)
qed

lemma dec_1000: "dec 1000 = ''1000''" "dec (Suc (Suc 0)) = ''2''"
  by code_simp+

text \<open>Two channels, a write in between.\<close>

theorem metadata_lists_channels_witness:
  "fst (Close (run_ops [OpNew ''Ch 1'', OpWrite 0 (Finite 0), OpNew ''Ch 2'']
          ((NewSrZip \<lparr>entries = [], io_faults = [], closed = False, last_open = False\<rparr>)\<lparr>SampleRate := 1000\<rparr>))) = None \<and>
   last (entries (zipFile (snd (Close (run_ops [OpNew ''Ch 1'', OpWrite 0 (Finite 0), OpNew ''Ch 2'']
          ((NewSrZip \<lparr>entries = [], io_faults = [], closed = False, last_open = False\<rparr>)\<lparr>SampleRate := 1000\<rparr>)))))) =
     (''metadata'',
      [Txt (nl @ ''[device 1]'' @ nl @ ''samplerate=1000'' @ nl @ ''total analog=2'' @ nl @
            ''analog1=Ch 1'' @ nl @ ''analog2=Ch 2'' @ nl)])"
proof -
  let ?sr0 = "(NewSrZip \<lparr>entries = [], io_faults = [], closed = False, last_open = False\<rparr>)\<lparr>SampleRate := 1000\<rparr>"
  let ?ops = "[OpNew ''Ch 1'', OpWrite 0 (Finite 0), OpNew ''Ch 2'']"
  have "sr_inv True 1000 ?sr0" by (simp add: sr_inv_def NewSrZip_def)
  then have "sr_inv True 1000 (run_ops ?ops ?sr0)" by (rule run_ops_inv)
  then have "fst (Close (run_ops ?ops ?sr0)) = None"
    using Close_ok[of "run_ops ?ops ?sr0"] by (simp add: sr_inv_def)
  then show ?thesis
    using metadata_lists_channels[where ops = ?ops and r = 1000
        and z = "\<lparr>entries = [], io_faults = [], closed = False, last_open = False\<rparr>"]
    by (simp add: label_line_def dec_eval dec_1000 del: run_ops.simps)
qed

section \<open>The values\<close>

lemma c1_code:
  "to_float32 (fsub (fmul (float64_of_int 9) (valueScaler (Finite 5))) (Finite (14778365 / 16777216))) =
     Finite (4194305 / 4194304)"
  by code_simp

lemma c1_spec:
  "to_float32 (fsub (fdiv (fmul (fmul (fsub (float64_of_int 137) (const64 128)) (Finite 5))
      (const64 (107 / 10))) (const64 256)) (Finite (14778365 / 16777216))) = Finite (8388609 / 8388608)"
  by code_simp

lemma c8_values:
  "to_float32 (fsub (fmul (float64_of_int 0) (valueScaler (Finite (1 / 2)))) (const64 (1 / 10))) =
     Finite (- 13421773 / 134217728)"
  "to_float32 (fsub (fmul (float64_of_int 10) (valueScaler (Finite (1 / 2)))) (const64 (1 / 10))) =
     Finite (14627635 / 134217728)"
  "to_float32 (fsub (fmul (float64_of_int (- 10)) (valueScaler (Finite (1 / 2)))) (const64 (1 / 10))) =
     Finite (- 10367795 / 33554432)"
  by code_simp+

lemma rate_eval: "fdiv (Finite 1000) (float64_of_int 1) = Finite 1000"
  by code_simp

lemma scenario_values:
  "sample_value (valueScaler (Finite (1 / 2))) (const64 (1 / 10)) 128 = Finite (- 13421773 / 134217728)"
  "sample_value (valueScaler (Finite (1 / 2))) (const64 (1 / 10)) 138 = Finite (14627635 / 134217728)"
  "sample_value (valueScaler (Finite (1 / 2))) (const64 (1 / 10)) 118 = Finite (- 10367795 / 33554432)"
  by (simp_all add: sample_value_def c8_values del: fmul.simps fsub.simps to_float32.simps)


lemma uint_rate: "uint_of_float64 impl (Finite 1000) = 1000"
  by (simp add: uint_of_float64_def)

lemma scenario_run:
  "main (\<lambda>f. 0)
     \<lparr>use_10x = False, writeRaw = False, applyOffset = True, startOffset = Finite 0, decimate = 1\<rparr>
     \<lparr>Scales = (\<lambda>n. Finite (1 / 2)), Offsets = (\<lambda>n. const64 (1 / 10))\<rparr>
     \<lparr>Points = 4, spec_SampleRate = Finite 1000\<rparr> [128, 138, 118, 128]
     \<lparr>entries = [], io_faults = [], closed = False, last_open = False\<rparr> =
   (Completed, [],
    Some \<lparr>zipFile =
            \<lparr>entries =
               [(''analog-1-1-1'',
                 [F32 (Finite (- 13421773 / 134217728)), F32 (Finite (14627635 / 134217728)),
                  F32 (Finite (- 10367795 / 33554432)), F32 (Finite (- 13421773 / 134217728))]),
                (''version'', [Txt (''2'' @ nl)]),
                (''metadata'',
                 [Txt (nl @ ''[device 1]'' @ nl @ ''samplerate=1000'' @ nl @ ''total analog=1'' @ nl @
                       ''analog1=Ch 1'' @ nl)])],
             io_faults = [], closed = True, last_open = False\<rparr>,
          channels = [\<lparr>c_samples = 4, c_part = 1, c_w = Some 0, c_channel = 1, c_name = ''Ch 1''\<rparr>],
          SampleRate = 1000\<rparr>)"
  by (simp add: main_def Let_def rate_eval uint_rate NewSrZip_def convert_channel_def
        channel_scale_def channel_offset_def open_output_def NewAnalogChannel_def update_def
        Create_def part_name_def dec_eval start_discard_def decimateSkip_def sample_loop.simps
        ReadByte_def output_Write_def Write_def entry_Write_def scenario_values output_Close_def
        Close_def createFile_def metadata_def channel_line_def zip_Close_def dec_1000 SamplesLimit_def
        del: fmul.simps fsub.simps fdiv.simps to_float32.simps)


text \<open>
  Small integers are \<open>float64\<close> values, so \<open>float64(b) - 128\<close> and
  \<open>float64(int(b) - 128)\<close> are the same value for every byte.
\<close>

lemma bitlen_pos: "1 \<le> n \<Longrightarrow> 1 \<le> bitlen n \<and> 2 ^ nat (bitlen n - 1) \<le> n \<and> n < 2 ^ nat (bitlen n)"
proof (induction n rule: bitlen.induct)
  case (1 n)
  show ?case
  proof (cases "n = 1")
    case True
    then show ?thesis by (simp add: bitlen.simps[of 1] bitlen.simps[of 0])
  next
    case False
    with 1 have h: "1 \<le> n div 2" by simp
    then have IH: "1 \<le> bitlen (n div 2)" "2 ^ nat (bitlen (n div 2) - 1) \<le> n div 2"
      "n div 2 < 2 ^ nat (bitlen (n div 2))"
      using 1 by simp_all
    have b: "bitlen n = 1 + bitlen (n div 2)" using 1(2) by (subst bitlen.simps) simp
    have n1: "nat (bitlen n - 1) = Suc (nat (bitlen (n div 2) - 1))" using IH(1) b by simp
    have n2: "nat (bitlen n) = Suc (nat (bitlen (n div 2)))" using IH(1) b by simp
    have "2 * 2 ^ nat (bitlen (n div 2) - 1) \<le> 2 * (n div 2)" using IH(2) by simp
    also have "\<dots> \<le> n" by simp
    finally have lo: "2 ^ nat (bitlen n - 1) \<le> n" by (simp add: n1)
    have "n < 2 * (n div 2) + 2" by simp
    also have "\<dots> \<le> 2 * 2 ^ nat (bitlen (n div 2))" using IH(3) by simp
    finally have hi: "n < 2 ^ nat (bitlen n)" by (simp add: n2)
    show ?thesis using b IH(1) lo hi by simp
  qed
qed


lemma ilog2_of_int:
  assumes "1 \<le> k"
  shows "ilog2 (of_int k) = bitlen k - 1"
proof -
  from bitlen_pos[OF assms] have b1: "1 \<le> bitlen k" and lo: "2 ^ nat (bitlen k - 1) \<le> k" by simp_all
  have q: "quotient_of \<bar>of_int k\<bar> = (k, 1)" using assms by (simp flip: of_int_abs)
  have one: "bitlen 1 = 1" by (simp add: bitlen.simps[of 1] bitlen.simps[of 0])
  have "(2::rat) powi (bitlen k - 1) = 2 ^ nat (bitlen k - 1)"
    using b1 by (simp add: power_int_def)
  also have "\<dots> = of_int (2 ^ nat (bitlen k - 1))" by simp
  also have "\<dots> \<le> of_int k" using lo by (simp only: of_int_le_iff)
  finally have le: "(2::rat) powi (bitlen k - 1) \<le> \<bar>of_int k\<bar>" using assms by simp
  show ?thesis unfolding ilog2_def q using le by (simp add: one)
qed

lemma powi_nonpos: "n \<le> 0 \<Longrightarrow> (2::rat) powi n = 1 / 2 ^ nat (- n)"
  by (simp add: power_int_def field_simps)

lemma round_even_of_int: "round_even (of_int j) = j"
  by (simp add: round_even_def)

lemma round64_of_int:
  assumes "0 \<le> k" "k < 2 ^ 53"
  shows "round64 (of_int k) = Finite (of_int k)"
proof (cases "k = 0")
  case True
  then show ?thesis by (simp add: round64_def fround_def)
next
  case False
  with assms have k1: "1 \<le> k" by simp
  from bitlen_pos[OF k1] have b1: "1 \<le> bitlen k" and lo: "2 ^ nat (bitlen k - 1) \<le> k" by simp_all
  have e52: "bitlen k - 1 \<le> 52"
  proof (rule ccontr)
    assume "\<not> bitlen k - 1 \<le> 52"
    then have "53 \<le> nat (bitlen k - 1)" by simp
    then have "(2::int) ^ 53 \<le> 2 ^ nat (bitlen k - 1)" by (intro power_increasing) simp_all
    with lo assms(2) show False by simp
  qed
  let ?e = "bitlen k - 1"
  let ?m = "nat (52 - ?e)"
  have il: "ilog2 (of_int k) = ?e" using k1 by (rule ilog2_of_int)
  have mx: "max ?e (- 1022) = ?e" using b1 by simp
  have q: "(2::rat) powi (?e - int 53 + 1) = 1 / 2 ^ ?m"
  proof -
    have "?e - int 53 + 1 \<le> 0" using e52 by simp
    moreover have "nat (- (?e - int 53 + 1)) = ?m" by simp
    ultimately show ?thesis using powi_nonpos[of "?e - int 53 + 1"] by simp
  qed
  have dv: "(of_int k :: rat) / (1 / 2 ^ ?m) = of_int (k * 2 ^ ?m)" by simp
  have y: "(of_int (k * 2 ^ ?m) :: rat) * (1 / 2 ^ ?m) = of_int k" by simp
  have nz: "(of_int k :: rat) \<noteq> 0" using k1 by simp
  show ?thesis
    unfolding round64_def fround_def Let_def il mx q dv round_even_of_int y
    using nz e52 il by simp
qed

lemma const64_128: "const64 128 = Finite 128"
  using round64_of_int[of 128] by (simp add: const64_def)

lemma fsub_byte:
  "fsub (float64_of_int (uint (b :: byte))) (const64 128) = float64_of_int (uint b - 128)"
proof -
  have "uint b < 2 ^ 8" using uint_bounded[of b] by simp
  then have "uint b < 2 ^ 53" by simp
  then have r: "round64 (of_int (uint b)) = Finite (of_int (uint b))"
    by (intro round64_of_int) simp_all
  show ?thesis
    unfolding float64_of_int_def const64_128 r
    by (simp only: fsub.simps of_int_diff of_int_numeral)
qed

text \<open>
  The loop of convert.go hands to the writer the values of the bytes that \<open>kept\<close>
  selects, as the loop of the multi-channel converter does, and its value is the
  formula of the specification.
\<close>

lemma convert_go_loop_emit:
  "i \<le> P \<Longrightarrow> P - i \<le> length rbuf \<Longrightarrow> skip < 2 ^ 63 \<Longrightarrow>
   convert_go_loop wr P skip scale off i rbuf s =
     emit_all wr (map (convert_go_value scale off) (kept skip (take (P - i) rbuf))) (drop (P - i) rbuf) s"
proof (induction "P - i" arbitrary: i rbuf s rule: less_induct)
  case less
  show ?case
  proof (cases "i < P")
    case False
    then show ?thesis using less.prems by (simp add: convert_go_loop.simps kept.simps)
  next
    case True
    then obtain v r1 where rb: "rbuf = v # r1"
      using less.prems by (cases rbuf) auto
    obtain n where n: "P - i = Suc n" using True by (cases "P - i") auto
    have iu: "int_of_uint skip = int skip" using less.prems by (simp add: int_of_uint_small)
    show ?thesis
    proof (cases "0 < skip \<and> i + skip < P")
      case dec: True
      then have sk: "skip \<le> length r1" using less.prems rb by (simp, arith)
      have pn: "P - (i + skip + 1) = n - skip" using n dec by arith
      have tk: "take (P - (i + skip + 1)) (drop skip r1) = drop skip (take n r1)"
        unfolding pn by (simp add: drop_take)
      have "skip \<le> n" using n dec by arith
      then have dr: "drop (P - (i + skip + 1)) (drop skip r1) = drop n r1"
        unfolding pn by simp
      have "convert_go_loop wr P skip scale off (i + skip + 1) (drop skip r1) s1 =
            emit_all wr (map (convert_go_value scale off) (kept skip (take (P - (i + skip + 1)) (drop skip r1))))
              (drop (P - (i + skip + 1)) (drop skip r1)) s1" for s1
        using dec less.prems rb True by (intro less.hyps) auto
      then have IH: "convert_go_loop wr P skip scale off (Suc (i + skip)) (drop skip r1) s1 =
            emit_all wr (map (convert_go_value scale off) (kept skip (drop skip (take n r1)))) (drop n r1) s1" for s1
        using tk dr by simp
      have len: "skip < length (v # take n r1)" using n dec less.prems rb by (simp, arith)
      show ?thesis
        using dec True sk len
        apply (subst convert_go_loop.simps)
        apply (simp add: rb ReadByte_def Discard_def iu n kept.simps IH
              split: prod.splits option.splits)
        done
    next
      case nodec: False
      have n': "P - (i + 1) = n" using n by simp
      have "convert_go_loop wr P skip scale off (i + 1) r1 s1 =
            emit_all wr (map (convert_go_value scale off) (kept skip (take (P - (i + 1)) r1)))
              (drop (P - (i + 1)) r1) s1" for s1
        using less.prems rb True by (intro less.hyps) auto
      then have IH: "convert_go_loop wr P skip scale off (Suc i) r1 s1 =
            emit_all wr (map (convert_go_value scale off) (kept skip (take n r1))) (drop n r1) s1" for s1
        using n' by simp
      have len: "\<not> (0 < skip \<and> skip < length (v # take n r1))"
        using n nodec less.prems rb by (simp, arith)
      have k: "kept skip (v # take n r1) = v # kept skip (take n r1)"
        by (subst kept.simps) (use len in auto)
      have c: "(0 < skip \<and> i + skip < P) = False" using nodec by simp
      show ?thesis
        using True
        apply (subst convert_go_loop.simps)
        apply (simp add: rb ReadByte_def n k c IH split: prod.splits option.splits)
        done
    qed
  qed
qed


lemma convert_go_value_spec: "convert_go_value s o' = (\<lambda>b. spec_transform b s o')"
  by (simp add: convert_go_value_def spec_transform_def fsub_byte fun_eq_iff)

lemma sample_value_transform:
  "sample_value (valueScaler s) o' = (\<lambda>b. transform b s o')"
  by (simp add: sample_value_def valueScaler_def transform_def fun_eq_iff)

text \<open>
  C1, as amended. Every value that a loop over the samples hands to the writer is a
  function of the byte \<open>b\<close> it read and of the scale \<open>s\<close> and the offset \<open>o\<close> in effect,
  not of the position of the byte or of what was written before; each operation is
  rounded to \<open>float64\<close> and the result is cast to \<open>float32\<close>. In the single-channel
  converter (convert.go, line 184) the function is the formula as stated,
  \<open>(float64(b) - 128) * s * 10.7 / 256 - o\<close> from left to right. In the multi-channel
  converter (lines 195 and 212) it is \<open>float64(int(b) - 128) * (s * 10.7 / 256) - o\<close>,
  the scaler \<open>s * 10.7 / 256\<close> computed first, once for the channel.
\<close>

theorem per_sample_transform:
  assumes "1 \<le> decimate cfg" "decimate cfg < 2 ^ 63"
    and "start_index impl cfg spec \<le> unat (Points spec)"
    and "unat (Points spec) \<le> length rbuf"
  shows "convert_go_loop wr (unat (Points spec)) (decimateSkip (decimate cfg)) sc off
       (start_index impl cfg spec) (drop (start_index impl cfg spec) rbuf) s1 =
     emit_all wr
       (map (\<lambda>b. spec_transform b sc off)
          (kept (nat (decimate cfg - 1))
             (take (unat (Points spec) - start_index impl cfg spec)
                (drop (start_index impl cfg spec) rbuf))))
       (drop (unat (Points spec)) rbuf) s1 \<and>
   convert_channel impl cfg hdr spec chNum rbuf s =
     emit_all (output_Write (fst (open_output cfg chNum s)))
       (map (\<lambda>b. transform b (channel_scale cfg hdr chNum) (channel_offset cfg hdr chNum))
          (kept (nat (decimate cfg - 1))
             (take (unat (Points spec) - start_index impl cfg spec)
                (drop (start_index impl cfg spec) rbuf))))
       (drop (unat (Points spec)) rbuf) (snd (open_output cfg chNum s))"
proof -
  let ?P = "unat (Points spec)"
  let ?i = "start_index impl cfg spec"
  have sk: "decimateSkip (decimate cfg) = nat (decimate cfg - 1)"
    using assms(1,2) by (rule decimateSkip_eq)
  have sk63: "nat (decimate cfg - 1) < 2 ^ 63" using assms(1,2) by simp
  have len: "?P - ?i \<le> length (drop ?i rbuf)" using assms(3,4) by simp
  have dd: "drop (?P - ?i) (drop ?i rbuf) = drop ?P rbuf" using assms(3) by simp
  have "convert_go_loop wr ?P (nat (decimate cfg - 1)) sc off ?i (drop ?i rbuf) s1 =
      emit_all wr (map (convert_go_value sc off)
          (kept (nat (decimate cfg - 1)) (take (?P - ?i) (drop ?i rbuf))))
        (drop (?P - ?i) (drop ?i rbuf)) s1"
    using assms(3) len sk63 by (rule convert_go_loop_emit)
  then have go: "convert_go_loop wr ?P (decimateSkip (decimate cfg)) sc off ?i (drop ?i rbuf) s1 =
      emit_all wr (map (\<lambda>b. spec_transform b sc off)
          (kept (nat (decimate cfg - 1)) (take (?P - ?i) (drop ?i rbuf))))
        (drop ?P rbuf) s1"
    by (simp only: sk dd convert_go_value_spec)
  have ch: "convert_channel impl cfg hdr spec chNum rbuf s =
     emit_all (output_Write (fst (open_output cfg chNum s)))
       (map (\<lambda>b. transform b (channel_scale cfg hdr chNum) (channel_offset cfg hdr chNum))
          (kept (nat (decimate cfg - 1)) (take (?P - ?i) (drop ?i rbuf))))
       (drop ?P rbuf) (snd (open_output cfg chNum s))"
    using convert_channel_emit[OF assms, of hdr chNum s]
    by (simp add: sample_value_transform)
  from go ch show ?thesis by (rule conjI)
qed

lemma transform_eval:
  "transform 137 (Finite 5) (Finite (14778365 / 16777216)) = Finite (4194305 / 4194304)"
  using c1_code
  by (simp add: transform_def valueScaler_def del: fmul.simps fsub.simps fdiv.simps to_float32.simps)

lemma spec_transform_eval:
  "spec_transform 137 (Finite 5) (Finite (14778365 / 16777216)) = Finite (8388609 / 8388608)"
  using c1_spec
  by (simp add: spec_transform_def del: fmul.simps fsub.simps fdiv.simps to_float32.simps)

text \<open>
  One byte, 137, at the scale 5 and the offset 14778365 / 16777216, in both converters:
  \<open>1 + 1 / 2 ^ 23\<close> from convert.go and \<open>1 + 2 / 2 ^ 23\<close> from the multi-channel one.
\<close>

theorem per_sample_transform_witness:
  "1 \<le> decimate \<lparr>use_10x = False, writeRaw = True, applyOffset = True, startOffset = Finite 0, decimate = 1\<rparr> \<and>
   decimate \<lparr>use_10x = False, writeRaw = True, applyOffset = True, startOffset = Finite 0, decimate = 1\<rparr> < 2 ^ 63 \<and>
   start_index (\<lambda>f. 0) \<lparr>use_10x = False, writeRaw = True, applyOffset = True, startOffset = Finite 0, decimate = 1\<rparr> \<lparr>Points = 1, spec_SampleRate = Finite 1000\<rparr> = 0 \<and>
   unat (Points \<lparr>Points = 1, spec_SampleRate = Finite 1000\<rparr>) = 1 \<and>
   convert_go_loop (output_Write FileValueWriter) (unat (Points \<lparr>Points = 1, spec_SampleRate = Finite 1000\<rparr>)) (decimateSkip (decimate \<lparr>use_10x = False, writeRaw = True, applyOffset = True, startOffset = Finite 0, decimate = 1\<rparr>))
     (Finite 5) (Finite (14778365 / 16777216)) 0 [137]
     \<lparr>rawfile = [], srz = NewSrZip \<lparr>entries = [], io_faults = [], closed = False, last_open = False\<rparr>\<rparr> =
   Finished
     \<lparr>rawfile = [Finite (8388609 / 8388608)],
      srz = NewSrZip \<lparr>entries = [], io_faults = [], closed = False, last_open = False\<rparr>\<rparr> [] \<and>
   convert_channel (\<lambda>f. 0) \<lparr>use_10x = False, writeRaw = True, applyOffset = True, startOffset = Finite 0, decimate = 1\<rparr>
     \<lparr>Scales = (\<lambda>n. Finite 5), Offsets = (\<lambda>n. Finite (14778365 / 16777216))\<rparr>
     \<lparr>Points = 1, spec_SampleRate = Finite 1000\<rparr> 1 [137]
     \<lparr>rawfile = [], srz = NewSrZip \<lparr>entries = [], io_faults = [], closed = False, last_open = False\<rparr>\<rparr> =
   Finished
     \<lparr>rawfile = [Finite (4194305 / 4194304)],
      srz = NewSrZip \<lparr>entries = [], io_faults = [], closed = False, last_open = False\<rparr>\<rparr> []"
proof -
  have si: "start_index (\<lambda>f. 0) \<lparr>use_10x = False, writeRaw = True, applyOffset = True, startOffset = Finite 0, decimate = 1\<rparr> \<lparr>Points = 1, spec_SampleRate = Finite 1000\<rparr> = 0"
    by (simp add: start_index_def)
  show ?thesis
    using per_sample_transform[of
        "\<lparr>use_10x = False, writeRaw = True, applyOffset = True, startOffset = Finite 0, decimate = 1\<rparr>"
        "\<lambda>f. 0" "\<lparr>Points = 1, spec_SampleRate = Finite 1000\<rparr>" "[137]"
        "output_Write FileValueWriter" "Finite 5" "Finite (14778365 / 16777216)"
        "\<lparr>rawfile = [], srz = NewSrZip \<lparr>entries = [], io_faults = [], closed = False, last_open = False\<rparr>\<rparr>"
        "\<lparr>Scales = (\<lambda>n. Finite 5), Offsets = (\<lambda>n. Finite (14778365 / 16777216))\<rparr>" 1
        "\<lparr>rawfile = [], srz = NewSrZip \<lparr>entries = [], io_faults = [], closed = False, last_open = False\<rparr>\<rparr>"]
    by (simp add: si open_output_def channel_scale_def channel_offset_def kept.simps
          transform_eval spec_transform_eval output_Write_def)
qed

text \<open>
  C1 as stated fails of the multi-channel converter: for the byte 137, the scale 5 and
  the offset 14778365 / 16777216 its loop writes 1 + 2 / 2 ^ 23, and the formula
  evaluated from left to right gives 1 + 1 / 2 ^ 23. \<open>9 * (5 * 10.7 / 256)\<close> is 481.5 / 256 exactly and \<open>9 * 5 * 10.7\<close>
  rounds to the \<open>float64\<close> just below 481.5; the offset puts the first on the midpoint
  of two \<open>float32\<close> values and the second just below it.
\<close>

theorem left_to_right_counterexample:
  "sample_loop (output_Write FileValueWriter) 1 (decimateSkip 1) (valueScaler (Finite 5))
     (Finite (14778365 / 16777216)) 0 [137]
     \<lparr>rawfile = [], srz = NewSrZip \<lparr>entries = [], io_faults = [], closed = False, last_open = False\<rparr>\<rparr> =
   Finished
     \<lparr>rawfile = [Finite (4194305 / 4194304)],
      srz = NewSrZip \<lparr>entries = [], io_faults = [], closed = False, last_open = False\<rparr>\<rparr> [] \<and>
   spec_transform 137 (Finite 5) (Finite (14778365 / 16777216)) = Finite (8388609 / 8388608)"
proof -
  have "sample_value (valueScaler (Finite 5)) (Finite (14778365 / 16777216)) 137 =
      Finite (4194305 / 4194304)"
    by (simp add: sample_value_transform transform_eval)
  then show ?thesis
    by (simp add: sample_loop.simps decimateSkip_def ReadByte_def output_Write_def
          spec_transform_eval)
qed

text \<open>
  C8, as amended. For the scale 0.5, the offset 0.1, four points and the bytes
  128, 138, 118, 128, with no decimation, no probe multiplier and the offset applied, the
  run completes and the four values of the channel are, within \<open>1 / 10 ^ 7\<close>,
  \<open>- 0.1\<close>, \<open>0.208984375 - 0.1\<close>, \<open>- 0.208984375 - 0.1\<close> and \<open>- 0.1\<close>
  (\<open>10 * 0.5 * 10.7 / 256 = 107 / 512 = 0.208984375\<close>).
\<close>

theorem scenario_emitted_values:
  "main (\<lambda>f. 0)
     \<lparr>use_10x = False, writeRaw = False, applyOffset = True, startOffset = Finite 0, decimate = 1\<rparr>
     \<lparr>Scales = (\<lambda>n. Finite (1 / 2)), Offsets = (\<lambda>n. const64 (1 / 10))\<rparr>
     \<lparr>Points = 4, spec_SampleRate = Finite 1000\<rparr> [128, 138, 118, 128]
     \<lparr>entries = [], io_faults = [], closed = False, last_open = False\<rparr> =
   (Completed, [],
    Some \<lparr>zipFile =
            \<lparr>entries =
               [(''analog-1-1-1'',
                 [F32 (Finite (- 13421773 / 134217728)), F32 (Finite (14627635 / 134217728)),
                  F32 (Finite (- 10367795 / 33554432)), F32 (Finite (- 13421773 / 134217728))]),
                (''version'', [Txt (''2'' @ nl)]),
                (''metadata'',
                 [Txt (nl @ ''[device 1]'' @ nl @ ''samplerate=1000'' @ nl @ ''total analog=1'' @ nl @
                       ''analog1=Ch 1'' @ nl)])],
             io_faults = [], closed = True, last_open = False\<rparr>,
          channels = [\<lparr>c_samples = 4, c_part = 1, c_w = Some 0, c_channel = 1, c_name = ''Ch 1''\<rparr>],
          SampleRate = 1000\<rparr>) \<and>
   \<bar>(- 13421773 / 134217728 :: rat) - (- (1 / 10))\<bar> < 1 / 10 ^ 7 \<and>
   \<bar>(14627635 / 134217728 :: rat) - (107 / 512 - 1 / 10)\<bar> < 1 / 10 ^ 7 \<and>
   \<bar>(- 10367795 / 33554432 :: rat) - (- (107 / 512) - 1 / 10)\<bar> < 1 / 10 ^ 7"
  using scenario_run by simp

text \<open>
  C8 as stated fails: the second and the third value are more than 0.1 away from
  \<open>0.3125 - 0.1\<close> and \<open>- 0.3125 - 0.1\<close>.
\<close>

theorem scenario_values_counterexample:
  "map_option (hd \<circ> entries \<circ> zipFile) (snd (snd (main (\<lambda>f. 0)
     \<lparr>use_10x = False, writeRaw = False, applyOffset = True, startOffset = Finite 0, decimate = 1\<rparr>
     \<lparr>Scales = (\<lambda>n. Finite (1 / 2)), Offsets = (\<lambda>n. const64 (1 / 10))\<rparr>
     \<lparr>Points = 4, spec_SampleRate = Finite 1000\<rparr> [128, 138, 118, 128]
     \<lparr>entries = [], io_faults = [], closed = False, last_open = False\<rparr>))) =
   Some (''analog-1-1-1'',
         [F32 (Finite (- 13421773 / 134217728)), F32 (Finite (14627635 / 134217728)),
          F32 (Finite (- 10367795 / 33554432)), F32 (Finite (- 13421773 / 134217728))]) \<and>
   1 / 10 < \<bar>(14627635 / 134217728 :: rat) - (3125 / 10000 - 1 / 10)\<bar> \<and>
   1 / 10 < \<bar>(- 10367795 / 33554432 :: rat) - (- (3125 / 10000) - 1 / 10)\<bar>"
  using scenario_run by simp

section \<open>Failures of entry creation\<close>

text \<open>
  C4. Every failure to create an archive entry should reach the caller as an error that
  names the channel, the first segment opened by \<open>NewAnalogChannel\<close> included. It does
  not for that first segment. With one channel written and the next \<open>Create\<close> failing,
  \<open>update\<close> does return the error that names channel 2, but \<open>NewAnalogChannel\<close> drops
  it: it hands back the channel with no error, its writer still nil, the first \<open>Write\<close>
  to it dereferences the nil writer, and the run of \<open>main\<close> ends in that panic, not in
  the error.
\<close>

theorem first_segment_failure_dropped:
  "NewAnalogChannel ''Ch 2''
     \<lparr>zipFile = \<lparr>entries = [(''analog-1-1-1'', [F32 (Finite 0)])], io_faults = [True], closed = False, last_open = True\<rparr>,
      channels = [\<lparr>c_samples = 1, c_part = 1, c_w = Some 0, c_channel = 1, c_name = ''Ch 1''\<rparr>],
      SampleRate = 1000\<rparr> =
     (1, \<lparr>zipFile = \<lparr>entries = [(''analog-1-1-1'', [F32 (Finite 0)])], io_faults = [], closed = False, last_open = False\<rparr>,
          channels = [\<lparr>c_samples = 1, c_part = 1, c_w = Some 0, c_channel = 1, c_name = ''Ch 1''\<rparr>,
                      \<lparr>c_samples = 0, c_part = 1, c_w = None, c_channel = 2, c_name = ''Ch 2''\<rparr>],
          SampleRate = 1000\<rparr>) \<and>
   fst (update 1
     \<lparr>zipFile = \<lparr>entries = [(''analog-1-1-1'', [F32 (Finite 0)])], io_faults = [True], closed = False, last_open = True\<rparr>,
      channels = [\<lparr>c_samples = 1, c_part = 1, c_w = Some 0, c_channel = 1, c_name = ''Ch 1''\<rparr>,
                  \<lparr>c_samples = 0, c_part = 0, c_w = None, c_channel = 2, c_name = ''Ch 2''\<rparr>],
      SampleRate = 1000\<rparr>) = Some (Err ''can't create part for analog ch Ch 2'') \<and>
   fst (Write 1 (Finite 0)
     \<lparr>zipFile = \<lparr>entries = [(''analog-1-1-1'', [F32 (Finite 0)])], io_faults = [], closed = False, last_open = False\<rparr>,
      channels = [\<lparr>c_samples = 1, c_part = 1, c_w = Some 0, c_channel = 1, c_name = ''Ch 1''\<rparr>,
                  \<lparr>c_samples = 0, c_part = 1, c_w = None, c_channel = 2, c_name = ''Ch 2''\<rparr>],
      SampleRate = 1000\<rparr>) = Some NilDeref \<and>
   fst (main (\<lambda>f. 0)
     \<lparr>use_10x = False, writeRaw = False, applyOffset = True, startOffset = Finite 0, decimate = 1\<rparr>
     \<lparr>Scales = (\<lambda>n. Finite 1), Offsets = (\<lambda>n. Finite 0)\<rparr>
     \<lparr>Points = 1, spec_SampleRate = Finite 1000\<rparr> [128, 128]
     \<lparr>entries = [], io_faults = [False, True], closed = False, last_open = False\<rparr>) = Panicked NilDeref"
  by (simp add: main_def Let_def NewSrZip_def convert_channel_def
        channel_scale_def channel_offset_def open_output_def NewAnalogChannel_def update_def
        Create_def part_name_def dec_eval start_discard_def decimateSkip_def sample_loop.simps
        ReadByte_def output_Write_def Write_def entry_Write_def output_Close_def SamplesLimit_def
        del: fmul.simps fsub.simps fdiv.simps to_float32.simps)

end
